theory Spec2Isabelle
  imports Main "HOL-Library.Word"
begin

section \<open>Errors\<close>

text \<open>
  Every \<^verbatim>\<open>IE_THROW()\<close>, every \<^verbatim>\<open>.at()\<close> that can miss and every
  \<^verbatim>\<open>throw\<close> of the two translation units is a value of this type. A function that
  can throw returns \<open>error + 'a\<close> with \<open>Inl\<close> the exception.
\<close>

datatype error =
    CannotGetVectorOfParameters      \<comment> \<open>getParameters: an empty field\<close>
  | InvalidDimension                 \<comment> \<open>parsePort: dim does not parse or is below -1\<close>
  | UnknownPrecision                 \<comment> \<open>convertPrecision rejects the string\<close>
  | StdOutOfRange                    \<comment> \<open>std::out_of_range of string::at, map::at\<close>
  | OutOfBoundsRead                  \<comment> \<open>vector operator[] past the end: undefined behaviour\<close>
  | CannotFindInputPort nat
  | CannotFindOutputPort nat
  | NameNotUnique string
  | NodeNotInGraph nat
  | LayerInconsistent nat
  | IncorrectInput nat
  | UndefinedElementType nat
  | UnsupportedOpset string
  | OpsetDoesNotContain string string
  | OperatorError                    \<comment> \<open>thrown by the operator library while visiting or validating\<close>
  | NoAttributesDefined
  | EmptyWeights
  | IncorrectWeights
  | InconsistentShapeSize
  | MissingBody
  | OpsetAlreadyExists string
  | ClGetDeviceInfoError int

section \<open>Stream extraction (the C++ library calls of model.cpp)\<close>

text \<open>
  \<^verbatim>\<open>std::isspace\<close> in the "C" locale: space and the control characters 9 to 13.
\<close>

definition is_space :: "char \<Rightarrow> bool" where
  "is_space c = (c = CHR '' '' \<or> ((9::nat) \<le> of_char c \<and> of_char c \<le> (13::nat)))"

definition is_digit :: "char \<Rightarrow> bool" where
  "is_digit c = ((48::nat) \<le> of_char c \<and> of_char c \<le> (57::nat))"

definition digit_val :: "char \<Rightarrow> int" where
  "digit_val c = int (of_char c) - 48"

definition digits_val :: "string \<Rightarrow> int" where
  "digits_val ds = foldl (\<lambda>a c. 10 * a + digit_val c) 0 ds"

text \<open>
  What \<^verbatim>\<open>stream >> x\<close> does for \<^verbatim>\<open>int64_t x\<close> on a fresh string stream: skip white
  space; at end of input the sentry fails and \<open>x\<close> is not written; otherwise read an
  optional sign and the longest run of decimal digits; no digit stores 0 and fails; a value
  outside the 64-bit range stores the nearest bound and fails. Characters after the digits
  stay in the stream and do not fail the extraction.
\<close>

datatype extraction =
    Extracted int     \<comment> \<open>success, value stored\<close>
  | NoConversion      \<comment> \<open>failbit, 0 stored\<close>
  | Overflowed int    \<comment> \<open>failbit, bound stored\<close>
  | Untouched         \<comment> \<open>failbit, target not written\<close>

definition extract_int64 :: "string \<Rightarrow> extraction" where
  "extract_int64 s =
     (let s1 = dropWhile is_space s in
      if s1 = [] then Untouched
      else
        let neg = (hd s1 = CHR ''-'');
            s2 = (if hd s1 = CHR ''-'' \<or> hd s1 = CHR ''+'' then tl s1 else s1);
            ds = takeWhile is_digit s2
        in if ds = [] then NoConversion
           else if neg then
             (if digits_val ds > 2 ^ 63 then Overflowed (- (2 ^ 63)) else Extracted (- digits_val ds))
           else
             (if digits_val ds > 2 ^ 63 - 1 then Overflowed (2 ^ 63 - 1) else Extracted (digits_val ds)))"

text \<open>\<^verbatim>\<open>stream >> s\<close> for \<^verbatim>\<open>std::string s\<close>, default constructed: the first token
  delimited by white space, the empty string when there is none.\<close>

definition extract_string :: "string \<Rightarrow> string" where
  "extract_string s = takeWhile (\<lambda>c. \<not> is_space c) (dropWhile is_space s)"

text \<open>
  The fields \<^verbatim>\<open>while (getline(ss, field, ','))\<close> yields: the text between commas; input
  that ends right after a comma (or is empty) yields no further field.
\<close>

fun getline_fields :: "string \<Rightarrow> string \<Rightarrow> string list" where
  "getline_fields cur [] = (if cur = [] then [] else [cur])"
| "getline_fields cur (c # cs) =
     (if c = CHR '','' then cur # getline_fields [] cs else getline_fields (cur @ [c]) cs)"

text \<open>
  \<^verbatim>\<open>getParameters<T>\<close>: \<open>None\<close> is the \<^verbatim>\<open>return false\<close> of an absent attribute. An
  empty field throws. The extraction's fail bit is never tested, so a field that does not
  convert still contributes the value the extraction left in \<^verbatim>\<open>val\<close>; for
  \<^verbatim>\<open>int64_t\<close> an all-blank field leaves \<^verbatim>\<open>val\<close> uninitialised, whose content is the
  parameter \<open>uninit\<close>.
\<close>

fun stored_int64 :: "int \<Rightarrow> extraction \<Rightarrow> int" where
  "stored_int64 uninit (Extracted v) = v"
| "stored_int64 uninit NoConversion = 0"
| "stored_int64 uninit (Overflowed v) = v"
| "stored_int64 uninit Untouched = uninit"

fun getParameters_fields :: "(string \<Rightarrow> 'a) \<Rightarrow> string list \<Rightarrow> error + 'a list" where
  "getParameters_fields conv [] = Inr []"
| "getParameters_fields conv (f # fs) =
     (if f = [] then Inl CannotGetVectorOfParameters
      else case getParameters_fields conv fs of
             Inl e \<Rightarrow> Inl e
           | Inr vs \<Rightarrow> Inr (conv f # vs))"

definition getParameters :: "(string \<Rightarrow> 'a) \<Rightarrow> string option \<Rightarrow> error + 'a list option" where
  "getParameters conv attr =
     (case attr of
        None \<Rightarrow> Inr None
      | Some param \<Rightarrow>
          (case getParameters_fields conv (getline_fields [] param) of
             Inl e \<Rightarrow> Inl e
           | Inr vs \<Rightarrow> Inr (Some vs)))"

definition getParameters_string :: "string option \<Rightarrow> error + string list option" where
  "getParameters_string = getParameters extract_string"

definition getParameters_int64 :: "int \<Rightarrow> string option \<Rightarrow> error + int list option" where
  "getParameters_int64 uninit = getParameters (\<lambda>f. stored_int64 uninit (extract_int64 f))"

section \<open>Layer parameters (parseGenericParams)\<close>

text \<open>
  The XML of a port and of a layer, as the accessors of the XML library hand it to the
  parser: \<open>xp_id\<close>, \<open>xl_id\<close> are the \<^verbatim>\<open>id\<close> attributes converted to
  \<^verbatim>\<open>size_t\<close>, \<open>xp_dims\<close> the text of each \<^verbatim>\<open><dim>\<close> child in document order. An
  attribute read by a getter without default (\<^verbatim>\<open>id\<close>, \<^verbatim>\<open>version\<close>, \<^verbatim>\<open>type\<close>,
  \<^verbatim>\<open>name\<close>, \<^verbatim>\<open>precision\<close>, the four attributes of an edge) is a plain value: its
  absence throws inside the XML library. An attribute the loader tests for presence is an
  \<open>option\<close>.
\<close>

record xml_port =
  xp_id :: nat
  xp_dims :: "string list"
  xp_precision :: string
  xp_names :: "string option"

text \<open>An element type is known by its name; \<open>undefined_type\<close> is
  \<^verbatim>\<open>element::Type_t::undefined\<close>.\<close>

type_synonym element_type = string

definition undefined_type :: element_type where
  "undefined_type = ''undefined''"

record LayerPortData =
  portId :: nat
  dims :: "int list"
  precision :: element_type
  names :: "string set"

text \<open>The loop over the \<^verbatim>\<open><dim>\<close> children of a port.\<close>

fun parse_dims :: "string list \<Rightarrow> error + int list" where
  "parse_dims [] = Inr []"
| "parse_dims (dimVal # rest) =
     (case extract_int64 dimVal of
        Extracted dim \<Rightarrow>
          (if dim < -1 then Inl InvalidDimension
           else case parse_dims rest of
                  Inl e \<Rightarrow> Inl e
                | Inr ds \<Rightarrow> Inr (dim # ds))
      | _ \<Rightarrow> Inl InvalidDimension)"

text \<open>\<^verbatim>\<open>name.replace(pos, 1, ",")\<close> for \<open>pos < length name\<close>.\<close>

definition replace_comma :: "string \<Rightarrow> nat \<Rightarrow> string" where
  "replace_comma name pos = take pos name @ '','' @ drop (Suc pos) name"

text \<open>
  The inner \<^verbatim>\<open>while\<close> of the names loop over the vector \<open>nv\<close>, from the state \<open>(i, name)\<close>: it returns the
  state at which the condition fails. \<^verbatim>\<open>names[i].at(names[i].length() - 1)\<close> throws on an
  empty token; \<^verbatim>\<open>names[++i]\<close> on the last token reads past the end of the vector.
\<close>

function restore_name :: "string list \<Rightarrow> nat \<Rightarrow> string \<Rightarrow> error + (nat \<times> string)" where
  "restore_name nv i name =
     (if i < length nv then
        (if nv ! i = [] then Inl StdOutOfRange
         else if last (nv ! i) = CHR 0x5C then
           (if Suc i < length nv
            then restore_name nv (Suc i)
                   (replace_comma name (length (nv ! i) - 1) @ nv ! Suc i)
            else Inl OutOfBoundsRead)
         else Inr (i, name))
      else Inr (i, name))"
  by pat_completeness auto
termination
  by (relation "measure (\<lambda>(nv, i, name). length nv - i)") auto

lemma restore_name_index: "restore_name ns i name = Inr (j, name') \<Longrightarrow> i \<le> j"
proof (induction ns i name rule: restore_name.induct)
  case (1 nv i name)
  show ?case
  proof (cases "i < length nv \<and> nv ! i \<noteq> [] \<and> last (nv ! i) = CHR 0x5C \<and> Suc i < length nv")
    case True
    then have "restore_name nv (Suc i)
        (replace_comma name (length (nv ! i) - 1) @ nv ! Suc i) = Inr (j, name')"
      using "1.prems" by (subst (asm) restore_name.simps) simp
    with "1.IH" True have "Suc i \<le> j" by blast
    then show ?thesis by simp
  next
    case False
    with "1.prems" show ?thesis
      by (subst (asm) restore_name.simps) (auto split: if_splits)
  qed
qed

text \<open>The outer \<^verbatim>\<open>for\<close> of the names loop: the names emplaced, in order.\<close>

function restore_names :: "string list \<Rightarrow> nat \<Rightarrow> error + string list" where
  "restore_names ns i =
     (if i < length ns then
        (case restore_name ns i (ns ! i) of
           Inl e \<Rightarrow> Inl e
         | Inr (j, name) \<Rightarrow>
             (case restore_names ns (Suc j) of
                Inl e \<Rightarrow> Inl e
              | Inr rest \<Rightarrow> Inr (name # rest)))
      else Inr [])"
  by pat_completeness auto
termination
proof (relation "measure (\<lambda>(ns, i). length ns - i)")
  show "wf (measure (\<lambda>(ns, i). length ns - i))" by simp
next
  fix ns :: "string list" and i :: nat and x2 :: "nat \<times> string" and j :: nat and name :: string
  assume a: "i < length ns" "restore_name ns i (ns ! i) = Inr x2" "(j, name) = x2"
  then have "i \<le> j" using restore_name_index [of ns i "ns ! i" j name] by simp
  with a show "((ns, Suc j), (ns, i)) \<in> measure (\<lambda>(ns, i). length ns - i)" by auto
qed

text \<open>
  \<^verbatim>\<open>parsePort\<close>: the dimensions, then the precision (output ports only; the
  precision registry \<open>convertPrecision\<close> is not part of these files and is a parameter,
  \<open>None\<close> where it throws), then the names.
\<close>

definition parse_port_names :: "string option \<Rightarrow> error + string list" where
  "parse_port_names attr =
     (case getParameters_string attr of
        Inl e \<Rightarrow> Inl e
      | Inr None \<Rightarrow> Inr []
      | Inr (Some ns) \<Rightarrow> restore_names ns 0)"

definition parsePort ::
  "(string \<Rightarrow> element_type option) \<Rightarrow> xml_port \<Rightarrow> bool \<Rightarrow> error + LayerPortData" where
  "parsePort convertPrecision parentNode input =
     (case parse_dims (xp_dims parentNode) of
        Inl e \<Rightarrow> Inl e
      | Inr ds \<Rightarrow>
          (case (if input then Inr undefined_type
                 else case convertPrecision (xp_precision parentNode) of
                        None \<Rightarrow> Inl UnknownPrecision
                      | Some t \<Rightarrow> Inr t) of
             Inl e \<Rightarrow> Inl e
           | Inr prec \<Rightarrow>
               (case parse_port_names (xp_names parentNode) of
                  Inl e \<Rightarrow> Inl e
                | Inr ns \<Rightarrow>
                    Inr \<lparr>portId = xp_id parentNode, dims = ds, precision = prec, names = set ns\<rparr>)))"

record xml_layer =
  xl_id :: nat
  xl_version :: string
  xl_type :: string
  xl_name :: string
  xl_output :: "xml_port list"
  xl_input :: "xml_port list"
  xl_data :: "(string \<times> string) list option"

record GenericLayerParams =
  layerId :: nat
  version :: string
  name :: string
  type :: string
  inputPorts :: "LayerPortData list"
  outputPorts :: "LayerPortData list"

text \<open>The search loop shared by \<^verbatim>\<open>getRealInputPortId\<close> and \<^verbatim>\<open>getRealOutputPortId\<close>:
  \<open>real_id\<close> counts the ports passed.\<close>

fun real_port_id :: "LayerPortData list \<Rightarrow> nat \<Rightarrow> nat \<Rightarrow> nat option" where
  "real_port_id [] pid real_id = None"
| "real_port_id (it # rest) pid real_id =
     (if portId it = pid then Some real_id else real_port_id rest pid (Suc real_id))"

definition getRealInputPortId :: "GenericLayerParams \<Rightarrow> nat \<Rightarrow> error + nat" where
  "getRealInputPortId p pid =
     (case real_port_id (inputPorts p) pid 0 of
        Some real_id \<Rightarrow> Inr real_id
      | None \<Rightarrow> Inl (CannotFindInputPort pid))"

definition getRealOutputPortId :: "GenericLayerParams \<Rightarrow> nat \<Rightarrow> error + nat" where
  "getRealOutputPortId p pid =
     (case real_port_id (outputPorts p) pid 0 of
        Some real_id \<Rightarrow> Inr real_id
      | None \<Rightarrow> Inl (CannotFindOutputPort pid))"

fun parse_ports :: "(string \<Rightarrow> element_type option) \<Rightarrow> bool \<Rightarrow> xml_port list \<Rightarrow> error + LayerPortData list" where
  "parse_ports convertPrecision input [] = Inr []"
| "parse_ports convertPrecision input (cn # rest) =
     (case parsePort convertPrecision cn input of
        Inl e \<Rightarrow> Inl e
      | Inr port \<Rightarrow>
          (case parse_ports convertPrecision input rest of
             Inl e \<Rightarrow> Inl e
           | Inr ports \<Rightarrow> Inr (port # ports)))"

text \<open>\<^verbatim>\<open>parseGenericParams\<close>: the output ports are parsed before the input ports.\<close>

definition parseGenericParams :: "(string \<Rightarrow> element_type option) \<Rightarrow> xml_layer \<Rightarrow> error + GenericLayerParams" where
  "parseGenericParams convertPrecision node =
     (case parse_ports convertPrecision False (xl_output node) of
        Inl e \<Rightarrow> Inl e
      | Inr outs \<Rightarrow>
          (case parse_ports convertPrecision True (xl_input node) of
             Inl e \<Rightarrow> Inl e
           | Inr ins \<Rightarrow>
               Inr \<lparr>layerId = xl_id node, version = xl_version node, name = xl_name node,
                    type = xl_type node, inputPorts = ins, outputPorts = outs\<rparr>))"

section \<open>The graph of a Function (parse_function)\<close>

text \<open>
  Nodes are shared objects: the loader holds them by \<^verbatim>\<open>shared_ptr\<close> in
  \<^verbatim>\<open>id_to_node\<close>, in the vectors of \<^verbatim>\<open>FunctionNodes\<close> and in
  \<^verbatim>\<open>variable_id_to_read_value\<close>, and the last pass mutates them. The model keeps the
  nodes in a store keyed by the layer id under which \<^verbatim>\<open>id_to_node\<close> holds them, and
  every other reference is that key.

  The operator library is not part of these files. What the loader observes of a created
  operator is its class (the targets of the \<^verbatim>\<open>dynamic_pointer_cast\<close>s), its variable id
  and the element types of its outputs.
\<close>

datatype op_class =
  ParameterOp | ResultOp | ConstantOp | ReadValueOp | AssignOp | OtherSinkOp | FrameworkNodeOp | OtherOp

record output_handle =
  out_node :: nat
  out_index :: nat
  out_type :: element_type

record node =
  friendly_name :: string
  op_class :: op_class
  created_from :: "(string \<times> string) option"  \<comment> \<open>the opset's key and the type name given to its factory\<close>
  variable_id :: string
  input_values :: "output_handle list"
  output_types :: "element_type list"
  control_dependencies :: "nat list"

record edge =
  fromLayerId :: nat
  fromPortId :: nat
  toPortId :: nat

record xml_edge =
  xe_from_layer :: nat
  xe_from_port :: nat
  xe_to_layer :: nat
  xe_to_port :: nat

record xml_net =
  xn_name :: string
  xn_layers :: "xml_layer list"
  xn_edges :: "xml_edge list"

record node_params =
  xml :: "xml_layer option"
  params :: GenericLayerParams

text \<open>\<^verbatim>\<open>params[id]\<close> and \<^verbatim>\<open>edges[id]\<close> on a \<^verbatim>\<open>std::map\<close>: an absent key yields
  the value-initialised element.\<close>

definition params_at :: "(nat \<rightharpoonup> node_params) \<Rightarrow> nat \<Rightarrow> node_params" where
  "params_at P i =
     (case P i of
        Some p \<Rightarrow> p
      | None \<Rightarrow> \<lparr>xml = None,
                  params = \<lparr>layerId = 0, version = [], name = [], type = [],
                            inputPorts = [], outputPorts = []\<rparr>\<rparr>)"

definition edges_at :: "(nat \<rightharpoonup> edge list) \<Rightarrow> nat \<Rightarrow> edge list" where
  "edges_at E i = (case E i of Some es \<Rightarrow> es | None \<Rightarrow> [])"

text \<open>Reading the layers: the parameter table, the output ids and the set of names seen.\<close>

fun read_layers ::
  "(string \<Rightarrow> element_type option) \<Rightarrow> xml_layer list \<Rightarrow> (nat \<rightharpoonup> node_params) \<Rightarrow> nat list \<Rightarrow> string set
     \<Rightarrow> error + ((nat \<rightharpoonup> node_params) \<times> nat list)" where
  "read_layers cp [] P outs opName = Inr (P, outs)"
| "read_layers cp (nd # rest) P outs opName =
     (case parseGenericParams cp nd of
        Inl e \<Rightarrow> Inl e
      | Inr node_param \<Rightarrow>
          if name node_param \<in> opName \<and> type node_param \<noteq> ''Result''
          then Inl (NameNotUnique (name node_param))
          else read_layers cp rest
                 (P(layerId node_param \<mapsto> \<lparr>xml = Some nd, params = node_param\<rparr>))
                 (if type node_param = ''Result'' \<or> type node_param = ''Assign''
                  then outs @ [layerId node_param] else outs)
                 (insert (name node_param) opName))"

text \<open>Reading the edges: \<^verbatim>\<open>edges[toLayer].push_back(...)\<close>.\<close>

fun read_edges :: "xml_edge list \<Rightarrow> (nat \<rightharpoonup> edge list) \<Rightarrow> (nat \<rightharpoonup> edge list)" where
  "read_edges [] E = E"
| "read_edges (ec # rest) E =
     read_edges rest
       (E(xe_to_layer ec \<mapsto>
            edges_at E (xe_to_layer ec)
              @ [\<lparr>fromLayerId = xe_from_layer ec, fromPortId = xe_from_port ec,
                   toPortId = xe_to_port ec\<rparr>]))"

text \<open>
  The depth-first search. Its state is what the lambda captures by reference: the edge table
  (\<^verbatim>\<open>edges[id]\<close> inserts an empty vector for an id without entry), the set \<open>used\<close>
  and the vector \<open>order\<close>. The recursion of the source is not structural; the first
  argument bounds its depth and \<open>None\<close> means the bound was reached.
\<close>

record dfs_state =
  edges :: "nat \<rightharpoonup> edge list"
  used :: "nat set"
  order :: "nat list"

fun dfs :: "nat \<Rightarrow> dfs_state \<Rightarrow> nat \<Rightarrow> dfs_state option"
  and dfs_each :: "nat \<Rightarrow> dfs_state \<Rightarrow> nat list \<Rightarrow> dfs_state option" where
  "dfs 0 st i = None"
| "dfs (Suc n) st i =
     (if i \<in> used st then Some st
      else
        (case dfs_each n
                (st\<lparr>used := insert i (used st),
                    edges := (edges st)(i \<mapsto> edges_at (edges st) i)\<rparr>)
                (map fromLayerId (edges_at (edges st) i)) of
           None \<Rightarrow> None
         | Some st' \<Rightarrow> Some (st'\<lparr>order := order st' @ [i]\<rparr>)))"
| "dfs_each n st [] = Some st"
| "dfs_each n st (i # rest) =
     (case dfs n st i of
        None \<Rightarrow> None
      | Some st' \<Rightarrow> dfs_each n st' rest)"

text \<open>Gathering the inputs of a node: one step per edge into the layer.\<close>

fun gather_inputs ::
  "(node \<Rightarrow> nat \<Rightarrow> error + element_type) \<Rightarrow> (nat \<rightharpoonup> node_params) \<Rightarrow> (nat \<rightharpoonup> node)
     \<Rightarrow> GenericLayerParams \<Rightarrow> edge list \<Rightarrow> output_handle option list
     \<Rightarrow> error + output_handle option list" where
  "gather_inputs node_output P N p [] inputs = Inr inputs"
| "gather_inputs node_output P N p (e # es) inputs =
     (case N (fromLayerId e) of
        None \<Rightarrow> Inl (NodeNotInGraph (fromLayerId e))
      | Some input_node \<Rightarrow>
          (case getRealInputPortId p (toPortId e) of
             Inl err \<Rightarrow> Inl err
           | Inr realInputPortId \<Rightarrow>
               if realInputPortId \<ge> length inputs then Inl (LayerInconsistent (layerId p))
               else
                 (case getRealOutputPortId (params (params_at P (fromLayerId e))) (fromPortId e) of
                    Inl err \<Rightarrow> Inl err
                  | Inr realOutputPortId \<Rightarrow>
                      (case node_output input_node realOutputPortId of
                         Inl err \<Rightarrow> Inl err
                       | Inr t \<Rightarrow>
                           gather_inputs node_output P N p es
                             (inputs[realInputPortId :=
                                Some \<lparr>out_node = fromLayerId e, out_index = realOutputPortId,
                                      out_type = t\<rparr>])))))"

record FunctionNodes =
  parameters :: "nat list"
  results :: "nat list"
  all_nodes :: "nat list"
  sinks :: "nat list"

record IoMap =
  io_inputs :: "nat \<rightharpoonup> nat"
  io_outputs :: "nat \<rightharpoonup> nat"

record build_state =
  id_to_node :: "nat \<rightharpoonup> node"
  func_nodes :: FunctionNodes
  variable_id_to_read_value :: "string \<rightharpoonup> nat"
  io_map :: IoMap

text \<open>\<^verbatim>\<open>unordered_map::insert\<close> keeps the value of a key that is present.\<close>

definition map_insert :: "('k \<rightharpoonup> 'v) \<Rightarrow> 'k \<Rightarrow> 'v \<Rightarrow> ('k \<rightharpoonup> 'v)" where
  "map_insert m k v = (case m k of None \<Rightarrow> m(k \<mapsto> v) | Some _ \<Rightarrow> m)"

text \<open>
  The bookkeeping after \<^verbatim>\<open>createNode\<close>: the four casts and the vectors they fill. A
  sink is a node of class Assign or of another sink class.
\<close>

definition index_node :: "build_state \<Rightarrow> nat \<Rightarrow> node \<Rightarrow> build_state" where
  "index_node st layer_id nd =
     (let fn = func_nodes st;
          io = io_map st;
          io1 = (if op_class nd = ParameterOp
                 then io\<lparr>io_inputs := map_insert (io_inputs io) layer_id (length (parameters fn))\<rparr>
                 else io);
          fn1 = (if op_class nd = ParameterOp
                 then fn\<lparr>parameters := parameters fn @ [layer_id]\<rparr> else fn);
          io2 = (if op_class nd = ResultOp
                 then io1\<lparr>io_outputs := map_insert (io_outputs io1) layer_id (length (results fn1))\<rparr>
                 else io1);
          fn2 = (if op_class nd = ResultOp
                 then fn1\<lparr>results := results fn1 @ [layer_id]\<rparr> else fn1);
          fn3 = (if op_class nd = AssignOp \<or> op_class nd = OtherSinkOp
                 then fn2\<lparr>sinks := sinks fn2 @ [layer_id]\<rparr> else fn2);
          rv = (if op_class nd = ReadValueOp
                then (variable_id_to_read_value st)(variable_id nd \<mapsto> layer_id)
                else variable_id_to_read_value st)
      in \<lparr>id_to_node = (id_to_node st)(layer_id \<mapsto> nd),
          func_nodes = fn3\<lparr>all_nodes := all_nodes fn3 @ [layer_id]\<rparr>,
          variable_id_to_read_value = rv,
          io_map = io2\<rparr>)"

text \<open>
  One iteration of the construction loop. \<open>createNode\<close> and \<open>node_output\<close>
  (\<^verbatim>\<open>Node::output(i)\<close> followed by the element type of that output) are parameters here.
\<close>

definition build_node ::
  "(output_handle option list \<Rightarrow> node_params \<Rightarrow> error + node)
     \<Rightarrow> (node \<Rightarrow> nat \<Rightarrow> error + element_type)
     \<Rightarrow> (nat \<rightharpoonup> node_params) \<Rightarrow> (nat \<rightharpoonup> edge list) \<Rightarrow> build_state \<Rightarrow> nat
     \<Rightarrow> error + build_state" where
  "build_node createNode node_output P E st layer_id =
     (case E layer_id of
        None \<Rightarrow> Inr st
      | Some es \<Rightarrow>
          (case gather_inputs node_output P (id_to_node st) (params (params_at P layer_id)) es
                  (replicate (length es) None) of
             Inl e \<Rightarrow> Inl e
           | Inr inputs \<Rightarrow>
               (case createNode inputs (params_at P layer_id) of
                  Inl e \<Rightarrow> Inl e
                | Inr nd \<Rightarrow> Inr (index_node st layer_id nd))))"

fun build_nodes ::
  "(output_handle option list \<Rightarrow> node_params \<Rightarrow> error + node)
     \<Rightarrow> (node \<Rightarrow> nat \<Rightarrow> error + element_type)
     \<Rightarrow> (nat \<rightharpoonup> node_params) \<Rightarrow> (nat \<rightharpoonup> edge list) \<Rightarrow> build_state \<Rightarrow> nat list
     \<Rightarrow> error + build_state" where
  "build_nodes createNode node_output P E st [] = Inr st"
| "build_nodes createNode node_output P E st (layer_id # rest) =
     (case build_node createNode node_output P E st layer_id of
        Inl e \<Rightarrow> Inl e
      | Inr st' \<Rightarrow> build_nodes createNode node_output P E st' rest)"

text \<open>
  The last pass: every sink that is an Assign gets the ReadValue recorded under its variable
  id as control dependency; \<^verbatim>\<open>.at()\<close> throws when none is recorded. A sink is a key of the
  store, so the first case does not arise.
\<close>

fun add_control_dependencies ::
  "(string \<rightharpoonup> nat) \<Rightarrow> nat list \<Rightarrow> (nat \<rightharpoonup> node) \<Rightarrow> error + (nat \<rightharpoonup> node)" where
  "add_control_dependencies rv [] N = Inr N"
| "add_control_dependencies rv (sink # rest) N =
     (case N sink of
        None \<Rightarrow> add_control_dependencies rv rest N
      | Some assign \<Rightarrow>
          if op_class assign = AssignOp then
            (case rv (variable_id assign) of
               None \<Rightarrow> Inl StdOutOfRange
             | Some read_value \<Rightarrow>
                 add_control_dependencies rv rest
                   (N(sink \<mapsto> assign\<lparr>control_dependencies :=
                                        control_dependencies assign @ [read_value]\<rparr>)))
          else add_control_dependencies rv rest N)"

record Function =
  fn_results :: "nat list"
  fn_sinks :: "nat list"
  fn_parameters :: "nat list"
  fn_name :: string
  fn_nodes :: "nat \<rightharpoonup> node"

text \<open>
  \<^verbatim>\<open>parse_function\<close> up to the end of the construction loop. The search starts from the
  empty \<open>used\<close> and \<open>order\<close>; no call chain of it is longer than the number of ids
  it can meet, which the number of output ids plus the number of edges bounds, so the depth
  bound below is never reached (\<open>construct_nodes_returns\<close>).
\<close>

definition construct_nodes ::
  "(string \<Rightarrow> element_type option)
     \<Rightarrow> (output_handle option list \<Rightarrow> node_params \<Rightarrow> error + node)
     \<Rightarrow> (node \<Rightarrow> nat \<Rightarrow> error + element_type)
     \<Rightarrow> IoMap \<Rightarrow> xml_net \<Rightarrow> (error + build_state) option" where
  "construct_nodes cp createNode node_output io root =
     (case read_layers cp (xn_layers root) Map.empty [] {} of
        Inl e \<Rightarrow> Some (Inl e)
      | Inr (P, outs) \<Rightarrow>
          (case dfs_each (Suc (length outs + length (xn_edges root)))
                  \<lparr>edges = read_edges (xn_edges root) Map.empty, used = {}, order = []\<rparr> outs of
             None \<Rightarrow> None
           | Some d \<Rightarrow>
               Some (build_nodes createNode node_output P (edges d)
                       \<lparr>id_to_node = Map.empty,
                        func_nodes = \<lparr>parameters = [], results = [], all_nodes = [], sinks = []\<rparr>,
                        variable_id_to_read_value = Map.empty,
                        io_map = io\<rparr>
                       (order d))))"

text \<open>
  \<^verbatim>\<open>parse_function\<close>: the construction, the Function over the results, sinks and
  parameters, and the pass over the sinks. The result is the Function with the visitor's io
  map. The validation the Function's constructor runs belongs to the operator library and is
  not part of the model.
\<close>

definition parse_function ::
  "(string \<Rightarrow> element_type option)
     \<Rightarrow> (output_handle option list \<Rightarrow> node_params \<Rightarrow> error + node)
     \<Rightarrow> (node \<Rightarrow> nat \<Rightarrow> error + element_type)
     \<Rightarrow> IoMap \<Rightarrow> xml_net \<Rightarrow> (error + Function \<times> IoMap) option" where
  "parse_function cp createNode node_output io root =
     (case construct_nodes cp createNode node_output io root of
        None \<Rightarrow> None
      | Some (Inl e) \<Rightarrow> Some (Inl e)
      | Some (Inr st) \<Rightarrow>
          (case add_control_dependencies (variable_id_to_read_value st)
                  (sinks (func_nodes st)) (id_to_node st) of
             Inl e \<Rightarrow> Some (Inl e)
           | Inr N \<Rightarrow>
               Some (Inr (\<lparr>fn_results = results (func_nodes st),
                            fn_sinks = sinks (func_nodes st),
                            fn_parameters = parameters (func_nodes st),
                            fn_name = xn_name root,
                            fn_nodes = N\<rparr>,
                          io_map st))))"

text \<open>An id \<open>b\<close> is reachable from \<open>a\<close> when the edge table leads from \<open>a\<close> to \<open>b\<close>
  backwards, from the destination of an edge to its source.\<close>

inductive reachable :: "(nat \<rightharpoonup> edge list) \<Rightarrow> nat \<Rightarrow> nat \<Rightarrow> bool" for E :: "nat \<rightharpoonup> edge list" where
  reachable_refl: "reachable E a a"
| reachable_step: "reachable E a b \<Longrightarrow> e \<in> set (edges_at E b) \<Longrightarrow> reachable E a (fromLayerId e)"

section \<open>Creating a node (createNode) and the opset registry (convert)\<close>

text \<open>
  An opset is known by its factory \<^verbatim>\<open>create_insensitive\<close>: the class of the operator it
  creates for a type name, \<open>None\<close> for the null pointer. What the operator does while the
  visitor runs over it, validates and clones it is the parameter \<open>visit\<close>: it throws, or
  yields the variable id and the element types of the outputs of the finished operator.
\<close>

type_synonym opset = "string \<Rightarrow> op_class option"

record visited =
  v_variable_id :: string
  v_output_types :: "element_type list"

definition experimental_ops_added_to_opset :: "string list" where
  "experimental_ops_added_to_opset =
     [''ExperimentalDetectronDetectionOutput'',
      ''ExperimentalDetectronGenerateProposalsSingleImage'',
      ''ExperimentalDetectronPriorGridGenerator'',
      ''ExperimentalDetectronROIFeatureExtractor'',
      ''ExperimentalDetectronTopKROIs'',
      ''GRUCell'',
      ''RNNCell'',
      ''Proposal'']"

text \<open>\<^verbatim>\<open>m_opsets.find(key)\<close>: the entry, or the end iterator.\<close>

definition find_opset :: "(string \<rightharpoonup> opset) \<Rightarrow> string \<Rightarrow> (string \<times> opset) option" where
  "find_opset m_opsets key = (case m_opsets key of None \<Rightarrow> None | Some os \<Rightarrow> Some (key, os))"

text \<open>The check of the inputs at the head of \<^verbatim>\<open>createNode\<close>.\<close>

fun check_inputs :: "output_handle option list \<Rightarrow> nat \<Rightarrow> error + output_handle list" where
  "check_inputs [] i = Inr []"
| "check_inputs (x # xs) i =
     (case x of
        None \<Rightarrow> Inl (IncorrectInput i)
      | Some out \<Rightarrow>
          if out_type out = undefined_type then Inl (UndefinedElementType i)
          else (case check_inputs xs (Suc i) of
                  Inl e \<Rightarrow> Inl e
                | Inr outs \<Rightarrow> Inr (out # outs)))"

text \<open>The operator made by the factory of the opset under \<open>key\<close> for the type name
  \<open>ty\<close>, visited, validated, cloned and named.\<close>

definition instantiate ::
  "(op_class \<Rightarrow> xml_layer option \<Rightarrow> output_handle list \<Rightarrow> error + visited)
     \<Rightarrow> string \<Rightarrow> opset \<Rightarrow> string \<Rightarrow> node_params \<Rightarrow> output_handle list \<Rightarrow> error + node" where
  "instantiate visit key os ty np args =
     (case os ty of
        None \<Rightarrow> Inl (OpsetDoesNotContain (version (params np)) ty)
      | Some cls \<Rightarrow>
          (case visit cls (xml np) args of
             Inl e \<Rightarrow> Inl e
           | Inr v \<Rightarrow>
               Inr \<lparr>friendly_name = name (params np), op_class = cls,
                    created_from = Some (key, ty), variable_id = v_variable_id v,
                    input_values = args, output_types = v_output_types v,
                    control_dependencies = []\<rparr>))"

text \<open>The fallback: a FrameworkNode over the inputs, visited, with the type of every
  declared output port set on it.\<close>

definition framework_node ::
  "(op_class \<Rightarrow> xml_layer option \<Rightarrow> output_handle list \<Rightarrow> error + visited)
     \<Rightarrow> node_params \<Rightarrow> output_handle list \<Rightarrow> error + node" where
  "framework_node visit np args =
     (case visit FrameworkNodeOp (xml np) args of
        Inl e \<Rightarrow> Inl e
      | Inr v \<Rightarrow>
          Inr \<lparr>friendly_name = name (params np), op_class = FrameworkNodeOp,
               created_from = None, variable_id = v_variable_id v,
               input_values = args, output_types = map precision (outputPorts (params np)),
               control_dependencies = []\<rparr>)"

definition createNode ::
  "(string \<rightharpoonup> opset) \<Rightarrow> bool
     \<Rightarrow> (op_class \<Rightarrow> xml_layer option \<Rightarrow> output_handle list \<Rightarrow> error + visited)
     \<Rightarrow> output_handle option list \<Rightarrow> node_params \<Rightarrow> error + node" where
  "createNode m_opsets m_use_framework_node visit inputs np =
     (case check_inputs inputs 0 of
        Inl e \<Rightarrow> Inl e
      | Inr args \<Rightarrow>
          (case (if type (params np) \<in> set experimental_ops_added_to_opset
                    \<and> (version (params np) = ''experimental'' \<or> version (params np) = ''extension'')
                 then find_opset m_opsets ''opset6''
                 else find_opset m_opsets (version (params np))) of
             Some (key, os) \<Rightarrow>
               (let ty = (if type (params np) = ''Const'' then ''Constant'' else type (params np)) in
                if version (params np) = ''opset1''
                   \<and> (ty = ''MVN'' \<or> ty = ''ROIPooling'' \<or> ty = ''ReorgYolo'')
                then (case find_opset m_opsets ''opset2'' of
                        None \<Rightarrow> Inl (UnsupportedOpset (version (params np)))
                      | Some (key2, os2) \<Rightarrow> instantiate visit key2 os2 ty np args)
                else instantiate visit key os ty np args)
           | None \<Rightarrow>
               if m_use_framework_node then framework_node visit np args
               else Inl (UnsupportedOpset (version (params np)))))"

text \<open>
  \<^verbatim>\<open>InputModelIR::convert\<close>: the registry holds the eight default opsets (the parameter
  \<open>get_opset\<close>, by number) and the opsets of the extensions; a name that is already
  registered throws. An extension whose version description is
  \<^verbatim>\<open>framework_node_ext\<close> enables the fallback.
\<close>

record extension =
  getOpSets :: "(string \<times> opset) list"
  description :: "string option"

definition default_opsets :: "(nat \<Rightarrow> opset) \<Rightarrow> (string \<rightharpoonup> opset)" where
  "default_opsets get_opset =
     [''opset1'' \<mapsto> get_opset 1, ''opset2'' \<mapsto> get_opset 2, ''opset3'' \<mapsto> get_opset 3,
      ''opset4'' \<mapsto> get_opset 4, ''opset5'' \<mapsto> get_opset 5, ''opset6'' \<mapsto> get_opset 6,
      ''opset7'' \<mapsto> get_opset 7, ''opset8'' \<mapsto> get_opset 8]"

fun add_opsets :: "(string \<times> opset) list \<Rightarrow> (string \<rightharpoonup> opset) \<Rightarrow> error + (string \<rightharpoonup> opset)" where
  "add_opsets [] opsets = Inr opsets"
| "add_opsets (it # rest) opsets =
     (case opsets (fst it) of
        Some _ \<Rightarrow> Inl (OpsetAlreadyExists (fst it))
      | None \<Rightarrow> add_opsets rest (opsets(fst it \<mapsto> snd it)))"

fun load_custom_opsets :: "extension list \<Rightarrow> (string \<rightharpoonup> opset) \<Rightarrow> error + (string \<rightharpoonup> opset)" where
  "load_custom_opsets [] opsets = Inr opsets"
| "load_custom_opsets (ext # rest) opsets =
     (case add_opsets (getOpSets ext) opsets of
        Inl e \<Rightarrow> Inl e
      | Inr opsets' \<Rightarrow> load_custom_opsets rest opsets')"

definition load_opsets :: "(nat \<Rightarrow> opset) \<Rightarrow> extension list \<Rightarrow> error + (string \<rightharpoonup> opset)" where
  "load_opsets get_opset m_exts = load_custom_opsets m_exts (default_opsets get_opset)"

definition use_framework_node :: "extension list \<Rightarrow> bool" where
  "use_framework_node m_exts = list_ex (\<lambda>ext. description ext = Some ''framework_node_ext'') m_exts"

definition convert ::
  "(string \<Rightarrow> element_type option) \<Rightarrow> (nat \<Rightarrow> opset)
     \<Rightarrow> (op_class \<Rightarrow> xml_layer option \<Rightarrow> output_handle list \<Rightarrow> error + visited)
     \<Rightarrow> (node \<Rightarrow> nat \<Rightarrow> error + element_type)
     \<Rightarrow> extension list \<Rightarrow> xml_net \<Rightarrow> (error + Function) option" where
  "convert cp get_opset visit node_output m_exts m_root =
     (case load_opsets get_opset m_exts of
        Inl e \<Rightarrow> Some (Inl e)
      | Inr opsets \<Rightarrow>
          (case parse_function cp (createNode opsets (use_framework_node m_exts) visit) node_output
                  \<lparr>io_inputs = Map.empty, io_outputs = Map.empty\<rparr> m_root of
             None \<Rightarrow> None
           | Some (Inl e) \<Rightarrow> Some (Inl e)
           | Some (Inr (function, io)) \<Rightarrow> Some (Inr function)))"

section \<open>Example networks\<close>









text \<open>
  Default opsets for the examples: opset6 knows GRUCell, opset2 knows MVN, every opset knows
  Constant, and nothing else is known. The visitor yields one output of type f32.
\<close>

definition example_get_opset :: "nat \<Rightarrow> opset" where
  "example_get_opset k =
     (\<lambda>ty. if ty = ''Constant'' then Some ConstantOp
           else if k = 6 \<and> ty = ''GRUCell'' then Some OtherOp
           else if k = 2 \<and> ty = ''MVN'' then Some OtherOp
           else None)"

definition example_visit :: "op_class \<Rightarrow> xml_layer option \<Rightarrow> output_handle list \<Rightarrow> error + visited" where
  "example_visit = (\<lambda>cls x args. Inr \<lparr>v_variable_id = [], v_output_types = [''f32'']\<rparr>)"

definition example_params :: "string \<Rightarrow> string \<Rightarrow> node_params" where
  "example_params ty ver =
     \<lparr>xml = None,
      params = \<lparr>layerId = 0, version = ver, name = ''n'', type = ty,
                inputPorts = [], outputPorts = []\<rparr>\<rparr>"

section \<open>Sub-graph operators: the port map (parseInputDescription, parseOutputDescription)\<close>

text \<open>
  The XML of a sub-graph operator as the two functions read it: the \<open>(type, id)\<close> of the
  layers of its \<^verbatim>\<open><body>\<close> (\<open>None\<close> when the body is missing), the inputs and outputs
  of its \<^verbatim>\<open><port_map>\<close> and its \<^verbatim>\<open><back_edges>\<close>, in document order.
  \<^verbatim>\<open>external_port_id\<close> is an \<^verbatim>\<open>int64_t\<close>, a 64-bit word read signed by \<open>sint\<close>
  and, where the code converts it to \<^verbatim>\<open>uint64_t\<close>, unsigned by \<open>unat\<close>. The optional
  attributes are \<open>option\<close>s; the values of \<^verbatim>\<open>start\<close>, \<^verbatim>\<open>stride\<close>,
  \<^verbatim>\<open>end\<close> and \<^verbatim>\<open>part_size\<close> are only passed on.
\<close>

record xml_port_map_input =
  pi_external_port_id :: "64 word"
  pi_internal_layer_id :: nat
  pi_axis :: "nat option"
  pi_start :: "int option"
  pi_stride :: "int option"
  pi_end :: "int option"
  pi_part_size :: "int option"

record xml_port_map_output =
  po_external_port_id :: "64 word"
  po_internal_layer_id :: nat
  po_axis :: "int option"
  po_start :: "int option"
  po_stride :: "int option"
  po_end :: "int option"
  po_part_size :: "int option"

record xml_back_edge =
  be_from_layer :: nat
  be_to_layer :: nat

record xml_sub_graph_op =
  body_layers :: "(string \<times> nat) list option"
  port_map_inputs :: "xml_port_map_input list"
  port_map_outputs :: "xml_port_map_output list"
  back_edges :: "xml_back_edge list"

text \<open>The descriptions, with the arguments of their constructors in the order the loader
  gives them.\<close>

datatype InputDescription =
    SliceInputDescription nat nat int int int int int
      \<comment> \<open>input index, body parameter index, start, stride, part size, end, axis\<close>
  | MergedInputDescription nat nat nat
      \<comment> \<open>input index, body parameter index, body value index\<close>
  | InvariantInputDescription nat nat
      \<comment> \<open>input index, body parameter index\<close>

datatype OutputDescription =
    ConcatOutputDescription nat nat int int int int int
      \<comment> \<open>body value index, output index, start, stride, part size, end, axis\<close>
  | BodyOutputDescription nat nat int
      \<comment> \<open>body value index, output index, iteration\<close>

text \<open>The \<^verbatim>\<open>-1\<close> that \<^verbatim>\<open>updated_io_map\<close> stores in a \<^verbatim>\<open>uint64_t\<close>.\<close>

definition unconnected :: nat where
  "unconnected = 2 ^ 64 - 1"

fun extend_io_map :: "(string \<times> nat) list \<Rightarrow> IoMap \<Rightarrow> IoMap" where
  "extend_io_map [] io = io"
| "extend_io_map (layer # rest) io =
     extend_io_map rest
       (if fst layer = ''Parameter''
        then io\<lparr>io_inputs := map_insert (io_inputs io) (snd layer) unconnected\<rparr>
        else if fst layer = ''Result''
        then io\<lparr>io_outputs := map_insert (io_outputs io) (snd layer) unconnected\<rparr>
        else io)"

definition updated_io_map :: "IoMap \<Rightarrow> xml_sub_graph_op \<Rightarrow> error + IoMap" where
  "updated_io_map io nd =
     (case body_layers nd of
        None \<Rightarrow> Inl MissingBody
      | Some layers \<Rightarrow> Inr (extend_io_map layers io))"

text \<open>
  A \<^verbatim>\<open>std::map\<close> as the list of its entries in ascending key order.
  \<^verbatim>\<open>emplace\<close> leaves the map unchanged when the key is present.
\<close>

fun map_emplace :: "('k::linorder \<times> 'v) list \<Rightarrow> 'k \<Rightarrow> 'v \<Rightarrow> ('k \<times> 'v) list" where
  "map_emplace [] k v = [(k, v)]"
| "map_emplace (kv # rest) k v =
     (if k < fst kv then (k, v) # kv # rest
      else if k = fst kv then kv # rest
      else kv # map_emplace rest k v)"

text \<open>The first loop of each function: the inputs keyed by the id as \<^verbatim>\<open>uint64_t\<close>, the
  outputs keyed by the id as \<^verbatim>\<open>int64_t\<close>.\<close>

definition input_map :: "xml_port_map_input list \<Rightarrow> (nat \<times> xml_port_map_input) list" where
  "input_map xs = foldl (\<lambda>m x. map_emplace m (unat (pi_external_port_id x)) x) [] xs"

definition output_map :: "xml_port_map_output list \<Rightarrow> (int \<times> xml_port_map_output) list" where
  "output_map xs = foldl (\<lambda>m x. map_emplace m (sint (po_external_port_id x)) x) [] xs"

text \<open>The body of the second loop of \<^verbatim>\<open>parseInputDescription\<close> for one entry of the
  map: the description pushed, if any. \<^verbatim>\<open>.at()\<close> throws on a missing key.\<close>

definition input_description ::
  "IoMap \<Rightarrow> xml_back_edge list \<Rightarrow> xml_port_map_input \<Rightarrow> error + InputDescription option" where
  "input_description up_io_map bes xml_input =
     (case pi_axis xml_input of
        Some axis \<Rightarrow>
          (case io_inputs up_io_map (pi_internal_layer_id xml_input) of
             None \<Rightarrow> Inl StdOutOfRange
           | Some input_index \<Rightarrow>
               Inr (Some (SliceInputDescription (unat (pi_external_port_id xml_input)) input_index
                      (case pi_start xml_input of None \<Rightarrow> 0 | Some v \<Rightarrow> v)
                      (case pi_stride xml_input of None \<Rightarrow> 1 | Some v \<Rightarrow> v)
                      (case pi_part_size xml_input of None \<Rightarrow> 1 | Some v \<Rightarrow> v)
                      (case pi_end xml_input of None \<Rightarrow> - 1 | Some v \<Rightarrow> v)
                      (int axis))))
      | None \<Rightarrow>
          (case find (\<lambda>xml_edge. be_to_layer xml_edge = pi_internal_layer_id xml_input) bes of
             Some xml_edge \<Rightarrow>
               (case io_inputs up_io_map (pi_internal_layer_id xml_input) of
                  None \<Rightarrow> Inl StdOutOfRange
                | Some input_index \<Rightarrow>
                    (case io_outputs up_io_map (be_from_layer xml_edge) of
                       None \<Rightarrow> Inl StdOutOfRange
                     | Some output_index \<Rightarrow>
                         Inr (Some (MergedInputDescription
                                (unat (pi_external_port_id xml_input)) input_index output_index))))
           | None \<Rightarrow>
               if 0 \<le> sint (pi_external_port_id xml_input) then
                 (case io_inputs up_io_map (pi_internal_layer_id xml_input) of
                    None \<Rightarrow> Inl StdOutOfRange
                  | Some input_index \<Rightarrow>
                      Inr (Some (InvariantInputDescription
                             (unat (pi_external_port_id xml_input)) input_index)))
               else Inr None))"

fun input_descriptions ::
  "IoMap \<Rightarrow> xml_back_edge list \<Rightarrow> xml_port_map_input list \<Rightarrow> error + InputDescription list" where
  "input_descriptions up_io_map bes [] = Inr []"
| "input_descriptions up_io_map bes (xml_input # rest) =
     (case input_description up_io_map bes xml_input of
        Inl e \<Rightarrow> Inl e
      | Inr r \<Rightarrow>
          (case input_descriptions up_io_map bes rest of
             Inl e \<Rightarrow> Inl e
           | Inr ds \<Rightarrow> Inr ((case r of None \<Rightarrow> [] | Some d \<Rightarrow> [d]) @ ds)))"

definition parseInputDescription :: "IoMap \<Rightarrow> xml_sub_graph_op \<Rightarrow> error + InputDescription list" where
  "parseInputDescription io nd =
     (case updated_io_map io nd of
        Inl e \<Rightarrow> Inl e
      | Inr up_io_map \<Rightarrow>
          input_descriptions up_io_map (back_edges nd) (map snd (input_map (port_map_inputs nd))))"

text \<open>The description \<^verbatim>\<open>parseOutputDescription\<close> pushes for a connected output: the
  two branches on the \<^verbatim>\<open>axis\<close> attribute, given the index of the body result and
  the current \<open>output_number\<close>.\<close>

definition connected_output :: "xml_port_map_output \<Rightarrow> nat \<Rightarrow> nat \<Rightarrow> OutputDescription" where
  "connected_output xml_output output_index output_number =
     (case po_axis xml_output of
        Some axis \<Rightarrow>
          ConcatOutputDescription output_index output_number
            (case po_start xml_output of None \<Rightarrow> 0 | Some v \<Rightarrow> v)
            (case po_stride xml_output of None \<Rightarrow> 1 | Some v \<Rightarrow> v)
            (case po_part_size xml_output of None \<Rightarrow> 1 | Some v \<Rightarrow> v)
            (case po_end xml_output of None \<Rightarrow> - 1 | Some v \<Rightarrow> v)
            axis
      | None \<Rightarrow> BodyOutputDescription output_index output_number (- 1))"

text \<open>The second loop of \<^verbatim>\<open>parseOutputDescription\<close>, from the entry at hand and the
  current \<open>output_number\<close>.\<close>

fun output_descriptions ::
  "IoMap \<Rightarrow> xml_port_map_output list \<Rightarrow> nat \<Rightarrow> error + OutputDescription list" where
  "output_descriptions up_io_map [] output_number = Inr []"
| "output_descriptions up_io_map (xml_output # rest) output_number =
     (if 0 \<le> sint (po_external_port_id xml_output) then
        (case io_outputs up_io_map (po_internal_layer_id xml_output) of
           None \<Rightarrow> Inl StdOutOfRange
         | Some output_index \<Rightarrow>
             (case output_descriptions up_io_map rest (Suc output_number) of
                Inl e \<Rightarrow> Inl e
              | Inr ds \<Rightarrow> Inr (connected_output xml_output output_index output_number # ds)))
      else output_descriptions up_io_map rest output_number)"

definition parseOutputDescription :: "IoMap \<Rightarrow> xml_sub_graph_op \<Rightarrow> error + OutputDescription list" where
  "parseOutputDescription io nd =
     (case updated_io_map io nd of
        Inl e \<Rightarrow> Inl e
      | Inr up_io_map \<Rightarrow>
          output_descriptions up_io_map (map snd (output_map (port_map_outputs nd))) 0)"

text \<open>The output number of a description.\<close>

fun output_number_of :: "OutputDescription \<Rightarrow> nat" where
  "output_number_of (ConcatOutputDescription body_value_index output_index s t p e a) = output_index"
| "output_number_of (BodyOutputDescription body_value_index output_index iteration) = output_index"

text \<open>
  A sub-graph operator for the examples. Its body has the Parameters 5, 6, 4, 3 and the
  Results 7, 8, 9, which the construction of the body has numbered in this order. Input 5
  is sliced and also the target of a back edge, input 6 is the target of a back edge, input
  4 is neither, and input 3 is not connected to the outer operator. Output 9 is not
  connected, output 8 is concatenated and output 7 is taken from the last iteration.
\<close>

definition example_body_io :: IoMap where
  "example_body_io =
     \<lparr>io_inputs = [5 \<mapsto> 0, 6 \<mapsto> 1, 4 \<mapsto> 2, 3 \<mapsto> 3],
      io_outputs = [7 \<mapsto> 0, 8 \<mapsto> 1, 9 \<mapsto> 2]\<rparr>"

definition example_body_layers :: "(string \<times> nat) list" where
  "example_body_layers =
     [(''Parameter'', 5), (''Parameter'', 6), (''Parameter'', 4), (''Parameter'', 3),
      (''Add'', 10), (''Result'', 7), (''Result'', 8), (''Result'', 9)]"

definition example_input :: "64 word \<Rightarrow> nat \<Rightarrow> nat option \<Rightarrow> xml_port_map_input" where
  "example_input ext internal ax =
     \<lparr>pi_external_port_id = ext, pi_internal_layer_id = internal, pi_axis = ax,
      pi_start = None, pi_stride = None, pi_end = None, pi_part_size = None\<rparr>"

definition example_output :: "64 word \<Rightarrow> nat \<Rightarrow> int option \<Rightarrow> xml_port_map_output" where
  "example_output ext internal ax =
     \<lparr>po_external_port_id = ext, po_internal_layer_id = internal, po_axis = ax,
      po_start = None, po_stride = None, po_end = None, po_part_size = None\<rparr>"

definition example_sub_graph :: xml_sub_graph_op where
  "example_sub_graph =
     \<lparr>body_layers = Some example_body_layers,
      port_map_inputs =
        [example_input (- 1) 3 None, example_input 2 4 None, example_input 0 5 (Some 0),
         example_input 1 6 None],
      port_map_outputs =
        [example_output (- 1) 9 None, example_output 1 8 (Some 0), example_output 0 7 None],
      back_edges = [\<lparr>be_from_layer = 9, be_to_layer = 5\<rparr>, \<lparr>be_from_layer = 8, be_to_layer = 6\<rparr>]\<rparr>"

text \<open>The same body with a port map in which two inputs name the external port 0.\<close>

definition example_shared_port :: xml_sub_graph_op where
  "example_shared_port =
     \<lparr>body_layers = Some example_body_layers,
      port_map_inputs = [example_input 0 5 None, example_input 0 6 None],
      port_map_outputs = [],
      back_edges = []\<rparr>"

section \<open>The device probe (ocl_device.cpp)\<close>

unbundle bit_operations_syntax














section \<open>The buffer of a constant (on_adapter)\<close>

text \<open>
  The branch of \<^verbatim>\<open>on_adapter\<close> for an adapter of a shared pointer to an
  \<^verbatim>\<open>AlignedBuffer\<close>. The \<^verbatim>\<open><data>\<close> child is the list of its attributes, or \<open>None\<close> when
  the layer has none, and the weights blob is the list of its bytes. The buffer set is
  either an \<^verbatim>\<open>AlignedBuffer\<close> owning a copy of a string, or a \<^verbatim>\<open>SharedBuffer\<close> over the
  blob, given by the offset of its first byte in the blob and its size. \<open>node_type\<close> is the
  \<^verbatim>\<open>type\<close> attribute of the layer and \<open>adapter_name\<close> the name of the attribute visited.
\<close>

datatype buffer =
    AlignedBuffer string
  | SharedBuffer nat nat

definition getStrAttribute :: "(string \<times> string) list option \<Rightarrow> string \<Rightarrow> string option" where
  "getStrAttribute node attr_name =
     (case node of
        None \<Rightarrow> None
      | Some attrs \<Rightarrow> map_of attrs attr_name)"

text \<open>
  The comparison \<^verbatim>\<open>size < std::ceil(n / 8.f)\<close> converts the two \<^verbatim>\<open>size_t\<close> values to
  \<^verbatim>\<open>float\<close>: to the nearest number with a significand of 24 bits, ties to even.
  \<open>float_exponent n\<close> is the number of low bits that do not fit. Dividing a \<^verbatim>\<open>float\<close> in
  this range by 8 and rounding the quotient up are exact.
\<close>

function float_exponent :: "nat \<Rightarrow> nat" where
  "float_exponent n = (if n < 2 ^ 24 then 0 else Suc (float_exponent (n div 2)))"
  by pat_completeness auto
termination
  by (relation "measure id") auto

definition to_float :: "nat \<Rightarrow> nat" where
  "to_float n =
     (let e = float_exponent n; q = n div 2 ^ e; r = n mod 2 ^ e in
      (if 2 ^ e < 2 * r \<or> (2 * r = 2 ^ e \<and> odd q) then q + 1 else q) * 2 ^ e)"

text \<open>
  \<^verbatim>\<open>XMLParseUtils::GetUInt64Attr\<close>, \<^verbatim>\<open>details::convertPrecision\<close>,
  \<^verbatim>\<open>element::Type::bitwidth\<close> and \<^verbatim>\<open>ngraph::shape_size\<close> are defined outside this
  translation unit and are parameters; the last two return a \<^verbatim>\<open>size_t\<close>, and their
  product wraps. \<open>uninit\<close> is the value of an uninitialised \<^verbatim>\<open>int64_t\<close>.
\<close>

definition on_adapter_AlignedBuffer ::
  "((string \<times> string) list \<Rightarrow> string \<Rightarrow> error + 64 word) \<Rightarrow> (string \<Rightarrow> element_type option)
   \<Rightarrow> (element_type \<Rightarrow> 64 word) \<Rightarrow> (int list \<Rightarrow> 64 word) \<Rightarrow> int
   \<Rightarrow> 8 word list \<Rightarrow> string \<Rightarrow> (string \<times> string) list option \<Rightarrow> string
   \<Rightarrow> error + buffer option" where
  "on_adapter_AlignedBuffer GetUInt64Attr convertPrecision bitwidth shape_size uninit m_weights node_type dn adapter_name =
     (case dn of
        None \<Rightarrow> Inl NoAttributesDefined
      | Some attrs \<Rightarrow>
          (case getStrAttribute dn adapter_name of
             Some value \<Rightarrow> Inr (Some (AlignedBuffer value))
           | None \<Rightarrow>
               if adapter_name = ''value'' \<and> node_type = ''Const'' then
                 (case GetUInt64Attr attrs ''offset'' of
                    Inl e \<Rightarrow> Inl e
                  | Inr offset \<Rightarrow>
                 (case GetUInt64Attr attrs ''size'' of
                    Inl e \<Rightarrow> Inl e
                  | Inr data_size \<Rightarrow>
                 (case getStrAttribute dn ''element_type'' of
                    None \<Rightarrow> Inr None
                  | Some el_type_str \<Rightarrow>
                 (case getParameters_int64 uninit (getStrAttribute dn ''shape'') of
                    Inl e \<Rightarrow> Inl e
                  | Inr None \<Rightarrow> Inr None
                  | Inr (Some shape) \<Rightarrow>
                 (case convertPrecision el_type_str of
                    None \<Rightarrow> Inl UnknownPrecision
                  | Some el_type \<Rightarrow>
                      if length m_weights = 0 then Inl EmptyWeights
                      else if length m_weights < unat (offset + data_size) then Inl IncorrectWeights
                      else if to_float (unat data_size)
                              < (to_float (unat (shape_size shape * bitwidth el_type)) + 7) div 8
                      then Inl InconsistentShapeSize
                      else Inr (Some (SharedBuffer (unat offset) (unat data_size))))))))
               else Inr None))"

text \<open>
  Instances of the parameters for the examples: an attribute that must be present and is
  read as a decimal number, 32 bits for every element type, and the product of the
  dimensions.
\<close>

definition example_GetUInt64Attr :: "(string \<times> string) list \<Rightarrow> string \<Rightarrow> error + 64 word" where
  "example_GetUInt64Attr attrs attr_name =
     (case map_of attrs attr_name of
        None \<Rightarrow> Inl OperatorError
      | Some s \<Rightarrow> Inr (word_of_int (digits_val s)))"

definition example_bitwidth :: "element_type \<Rightarrow> 64 word" where
  "example_bitwidth t = 32"

definition example_shape_size :: "int list \<Rightarrow> 64 word" where
  "example_shape_size shape = word_of_int (prod_list shape)"

definition example_weights :: "8 word list" where
  "example_weights = [1, 2, 3, 4, 5, 6, 7, 8, 9, 10, 11, 12]"

definition example_data :: "(string \<times> string) list" where
  "example_data =
     [(''offset'', ''4''), (''size'', ''8''), (''element_type'', ''f32''), (''shape'', ''2'')]"

chapter \<open>Verification\<close>

section \<open>Dimensions of a port\<close>

lemma parse_dims_Inr_iff:
  "parse_dims texts = Inr ds \<longleftrightarrow>
     list_all2 (\<lambda>t d. extract_int64 t = Extracted d \<and> - 1 \<le> d) texts ds"
proof (induction texts arbitrary: ds)
  case Nil
  show ?case by auto
next
  case (Cons t ts)
  show ?case
  proof (cases "extract_int64 t")
    case (Extracted d)
    show ?thesis
    proof (cases "d < - 1")
      case True
      with Extracted show ?thesis by (auto simp: list_all2_Cons1)
    next
      case False
      with Extracted Cons.IH show ?thesis
        by (cases "parse_dims ts") (auto simp: list_all2_Cons1)
    qed
  qed (auto simp: list_all2_Cons1)
qed

lemma parse_dims_error: "parse_dims texts = Inl e \<Longrightarrow> e = InvalidDimension"
  by (induction texts arbitrary: e) (auto split: extraction.splits if_splits sum.splits)

lemma parse_dims_Inl_iff:
  "(\<exists>e. parse_dims texts = Inl e) \<longleftrightarrow>
     (\<exists>t \<in> set texts. \<forall>d. extract_int64 t = Extracted d \<longrightarrow> d < - 1)"
proof (induction texts)
  case Nil
  show ?case by simp
next
  case (Cons t ts)
  show ?case
  proof (cases "extract_int64 t")
    case (Extracted d)
    with Cons.IH show ?thesis
      by (cases "parse_dims ts") auto
  qed auto
qed

lemma restore_name_error:
  "restore_name nv i nm = Inl e \<Longrightarrow> e = StdOutOfRange \<or> e = OutOfBoundsRead"
proof (induction nv i nm rule: restore_name.induct)
  case (1 nv i nm)
  show ?case
  proof (cases "i < length nv \<and> nv ! i \<noteq> [] \<and> last (nv ! i) = CHR 0x5C \<and> Suc i < length nv")
    case True
    then have "restore_name nv (Suc i)
        (replace_comma nm (length (nv ! i) - 1) @ nv ! Suc i) = Inl e"
      using "1.prems" by (subst (asm) restore_name.simps) (simp del: restore_name.simps)
    with "1.IH" True show ?thesis by blast
  next
    case False
    with "1.prems" show ?thesis
      by (subst (asm) restore_name.simps) (auto simp del: restore_name.simps split: if_splits)
  qed
qed

lemma restore_names_error:
  "restore_names ns i = Inl e \<Longrightarrow> e = StdOutOfRange \<or> e = OutOfBoundsRead"
proof (induction ns i rule: restore_names.induct)
  case (1 ns i)
  show ?case
  proof (cases "i < length ns")
    case False
    with "1.prems" show ?thesis
      by (subst (asm) restore_names.simps) (simp del: restore_names.simps)
  next
    case True
    show ?thesis
    proof (cases "restore_name ns i (ns ! i)")
      case (Inl e')
      with True "1.prems" have "e = e'"
        by (subst (asm) restore_names.simps) (simp del: restore_names.simps)
      with restore_name_error [OF Inl] show ?thesis by simp
    next
      case (Inr r)
      obtain j nm where r: "r = (j, nm)" by (cases r)
      from True Inr r "1.prems" have "restore_names ns (Suc j) = Inl e"
        by (subst (asm) restore_names.simps)
          (simp del: restore_names.simps restore_name.simps split: sum.splits)
      from "1.IH" [OF True Inr r [symmetric] this] show ?thesis .
    qed
  qed
qed

lemma getParameters_fields_error:
  "getParameters_fields conv fs = Inl e \<Longrightarrow> e = CannotGetVectorOfParameters"
  by (induction fs arbitrary: e) (auto split: if_splits sum.splits)

lemma parse_port_names_error:
  assumes "parse_port_names attr = Inl e"
  shows "e \<noteq> InvalidDimension"
proof (cases attr)
  case None
  with assms show ?thesis
    by (simp add: parse_port_names_def getParameters_string_def getParameters_def)
next
  case (Some param)
  show ?thesis
  proof (cases "getParameters_fields extract_string (getline_fields [] param)")
    case (Inl e')
    with assms Some have "e = e'"
      by (simp add: parse_port_names_def getParameters_string_def getParameters_def)
    with getParameters_fields_error [OF Inl] show ?thesis by simp
  next
    case (Inr ns)
    with assms Some have "restore_names ns 0 = Inl e"
      by (simp add: parse_port_names_def getParameters_string_def getParameters_def
          del: restore_names.simps)
    from restore_names_error [OF this] show ?thesis by auto
  qed
qed

lemma parsePort_Inr_dims:
  "parsePort cp p input = Inr port \<Longrightarrow> parse_dims (xp_dims p) = Inr (dims port)"
  by (auto simp: parsePort_def split: sum.splits if_splits option.splits)

lemma parsePort_InvalidDimension:
  "parsePort cp p input = Inl InvalidDimension \<longleftrightarrow> (\<exists>e. parse_dims (xp_dims p) = Inl e)"
proof
  assume a: "parsePort cp p input = Inl InvalidDimension"
  show "\<exists>e. parse_dims (xp_dims p) = Inl e"
  proof (cases "parse_dims (xp_dims p)")
    case (Inl e)
    then show ?thesis by blast
  next
    case (Inr ds)
    with a parse_port_names_error [of "xp_names p" InvalidDimension] show ?thesis
      by (auto simp: parsePort_def split: sum.splits if_splits option.splits)
  qed
next
  assume "\<exists>e. parse_dims (xp_dims p) = Inl e"
  then obtain e where e: "parse_dims (xp_dims p) = Inl e" ..
  with parse_dims_error [OF e] show "parsePort cp p input = Inl InvalidDimension"
    by (simp add: parsePort_def)
qed

text \<open>
  C7, as stated, fails: a \<^verbatim>\<open><dim>\<close> text that is not an integer is not always refused: the extraction reads
  the leading integer and the loop never looks at what follows it. The texts \<^verbatim>\<open>3.5\<close>
  and \<^verbatim>\<open>-1abc\<close> are accepted as the dimensions 3 and -1.
\<close>

theorem dim_with_trailing_text_accepted:
  "parsePort (\<lambda>s. Some s)
     \<lparr>xp_id = 0, xp_dims = [''3.5'', ''-1abc''], xp_precision = ''FP32'', xp_names = None\<rparr> False
   = Inr \<lparr>portId = 0, dims = [3, - 1], precision = ''FP32'', names = {}\<rparr>"
  by (simp add: parsePort_def parse_port_names_def getParameters_string_def getParameters_def
      extract_int64_def is_space_def is_digit_def digits_val_def digit_val_def)

text \<open>
  C7. A port is accepted only if each of its \<^verbatim>\<open><dim>\<close> children extracts as an integer
  that is at least -1, and the port then carries the extracted values (so -1 is kept as a
  dynamic dimension). The dimension error is thrown exactly when some child fails to extract
  (no leading integer, or one outside the 64-bit range) or extracts a value below -1. When
  every child extracts a value of at least -1, the precision is known and the names parse,
  the port is accepted with those values as its dimensions.
\<close>

theorem dim_leading_integer_at_least_minus_one:
  "(parsePort cp p input = Inr port \<longrightarrow>
      list_all2 (\<lambda>t d. extract_int64 t = Extracted d \<and> - 1 \<le> d) (xp_dims p) (dims port))
   \<and> (parsePort cp p input = Inl InvalidDimension \<longleftrightarrow>
        (\<exists>t \<in> set (xp_dims p). \<forall>d. extract_int64 t = Extracted d \<longrightarrow> d < - 1))
   \<and> (list_all2 (\<lambda>t d. extract_int64 t = Extracted d \<and> - 1 \<le> d) (xp_dims p) ds
        \<and> (input \<and> ty = undefined_type \<or> \<not> input \<and> cp (xp_precision p) = Some ty)
        \<and> parse_port_names (xp_names p) = Inr ns
      \<longrightarrow> parsePort cp p input
            = Inr \<lparr>portId = xp_id p, dims = ds, precision = ty, names = set ns\<rparr>)"
proof (intro conjI)
  show "parsePort cp p input = Inr port \<longrightarrow>
      list_all2 (\<lambda>t d. extract_int64 t = Extracted d \<and> - 1 \<le> d) (xp_dims p) (dims port)"
    using parsePort_Inr_dims [of cp p input port] parse_dims_Inr_iff [of "xp_dims p" "dims port"]
    by blast
  show "parsePort cp p input = Inl InvalidDimension \<longleftrightarrow>
        (\<exists>t \<in> set (xp_dims p). \<forall>d. extract_int64 t = Extracted d \<longrightarrow> d < - 1)"
    using parsePort_InvalidDimension [of cp p input] parse_dims_Inl_iff [of "xp_dims p"]
    by blast
  show "list_all2 (\<lambda>t d. extract_int64 t = Extracted d \<and> - 1 \<le> d) (xp_dims p) ds
        \<and> (input \<and> ty = undefined_type \<or> \<not> input \<and> cp (xp_precision p) = Some ty)
        \<and> parse_port_names (xp_names p) = Inr ns
      \<longrightarrow> parsePort cp p input
            = Inr \<lparr>portId = xp_id p, dims = ds, precision = ty, names = set ns\<rparr>"
    using parse_dims_Inr_iff [of "xp_dims p" ds]
    by (auto simp: parsePort_def)
qed

theorem dim_leading_integer_at_least_minus_one_witness:
  "parsePort (\<lambda>s. Some s)
     \<lparr>xp_id = 4, xp_dims = [''3'', ''-1''], xp_precision = ''FP32'', xp_names = None\<rparr> False
     = Inr \<lparr>portId = 4, dims = [3, - 1], precision = ''FP32'', names = {}\<rparr>
   \<and> parsePort (\<lambda>s. Some s)
     \<lparr>xp_id = 4, xp_dims = [''3'', ''-2''], xp_precision = ''FP32'', xp_names = None\<rparr> False
     = Inl InvalidDimension
   \<and> parsePort (\<lambda>s. Some s)
     \<lparr>xp_id = 4, xp_dims = [''two''], xp_precision = ''FP32'', xp_names = None\<rparr> True
     = Inl InvalidDimension
   \<and> parsePort (\<lambda>s. Some s)
     \<lparr>xp_id = 4, xp_dims = [''99999999999999999999''], xp_precision = ''FP32'', xp_names = None\<rparr> True
     = Inl InvalidDimension"
proof -
  let ?cp = "\<lambda>s::string. Some s"
  have ex: "extract_int64 ''3'' = Extracted 3" "extract_int64 ''-1'' = Extracted (- 1)"
    "extract_int64 ''-2'' = Extracted (- 2)" "extract_int64 ''two'' = NoConversion"
    "extract_int64 ''99999999999999999999'' = Overflowed (2 ^ 63 - 1)"
    by (simp_all add: extract_int64_def is_space_def is_digit_def digits_val_def digit_val_def)
  have nm: "parse_port_names None = Inr []"
    by (simp add: parse_port_names_def getParameters_string_def getParameters_def)
  note t = dim_leading_integer_at_least_minus_one
  from t [of ?cp "\<lparr>xp_id = 4, xp_dims = [''3'', ''-1''], xp_precision = ''FP32'', xp_names = None\<rparr>"
      False _ "[3, - 1]" "''FP32''" "[]"] ex nm
  have a: "parsePort ?cp
     \<lparr>xp_id = 4, xp_dims = [''3'', ''-1''], xp_precision = ''FP32'', xp_names = None\<rparr> False
     = Inr \<lparr>portId = 4, dims = [3, - 1], precision = ''FP32'', names = {}\<rparr>" by simp
  from t [of ?cp "\<lparr>xp_id = 4, xp_dims = [''3'', ''-2''], xp_precision = ''FP32'', xp_names = None\<rparr>" False] ex
  have b: "parsePort ?cp
     \<lparr>xp_id = 4, xp_dims = [''3'', ''-2''], xp_precision = ''FP32'', xp_names = None\<rparr> False
     = Inl InvalidDimension" by simp
  from t [of ?cp "\<lparr>xp_id = 4, xp_dims = [''two''], xp_precision = ''FP32'', xp_names = None\<rparr>" True] ex
  have c: "parsePort ?cp
     \<lparr>xp_id = 4, xp_dims = [''two''], xp_precision = ''FP32'', xp_names = None\<rparr> True
     = Inl InvalidDimension" by simp
  from t [of ?cp "\<lparr>xp_id = 4, xp_dims = [''99999999999999999999''], xp_precision = ''FP32'', xp_names = None\<rparr>" True] ex
  have d: "parsePort ?cp
     \<lparr>xp_id = 4, xp_dims = [''99999999999999999999''], xp_precision = ''FP32'', xp_names = None\<rparr> True
     = Inl InvalidDimension" by simp
  show ?thesis by (intro conjI) (rule a, rule b, rule c, rule d)
qed

section \<open>Tensor names of a port\<close>

text \<open>
  C8. The names attribute \<^verbatim>\<open>a\,b\,c\<close> holds one name with two escaped commas. The loop
  restores the first comma only: the second \<^verbatim>\<open>replace\<close> is placed by the length of the
  current token instead of the length of the name built so far, so it overwrites the comma
  restored before and leaves the second backslash. The port gets the name
  \<^verbatim>\<open>a,b\c\<close>, and the original name \<^verbatim>\<open>a,b,c\<close> is not among its names.
\<close>

theorem names_second_escaped_comma_not_restored:
  "parsePort cp \<lparr>xp_id = 0, xp_dims = [], xp_precision = [],
       xp_names = Some (''a'' @ [CHR 0x5C] @ '',b'' @ [CHR 0x5C] @ '',c'')\<rparr> True
     = Inr \<lparr>portId = 0, dims = [], precision = undefined_type,
            names = {''a,b'' @ [CHR 0x5C] @ ''c''}\<rparr>
   \<and> ''a,b,c'' \<notin> {''a,b'' @ [CHR 0x5C] @ ''c''}"
  by (simp add: parsePort_def parse_port_names_def getParameters_string_def getParameters_def
       extract_string_def is_space_def replace_comma_def)

section \<open>Port wiring\<close>

lemma real_port_id_Some:
  "real_port_id ports pid k = Some r \<Longrightarrow>
     k \<le> r \<and> r - k < length ports \<and> portId (ports ! (r - k)) = pid
       \<and> (\<forall>j < r - k. portId (ports ! j) \<noteq> pid)"
proof (induction ports arbitrary: k)
  case Nil
  then show ?case by simp
next
  case (Cons it rest)
  show ?case
  proof (cases "portId it = pid")
    case True
    with Cons.prems show ?thesis by simp
  next
    case False
    with Cons.prems have "real_port_id rest pid (Suc k) = Some r" by simp
    from Cons.IH [OF this] have ih: "Suc k \<le> r" "r - Suc k < length rest"
      "portId (rest ! (r - Suc k)) = pid" "\<forall>j < r - Suc k. portId (rest ! j) \<noteq> pid" by auto
    from ih(1) have eq: "r - k = Suc (r - Suc k)" by simp
    have "\<forall>j < r - k. portId ((it # rest) ! j) \<noteq> pid"
    proof (intro allI impI)
      fix j assume "j < r - k"
      then show "portId ((it # rest) ! j) \<noteq> pid"
        using False ih(4) eq by (cases j) auto
    qed
    with ih eq show ?thesis by simp
  qed
qed

lemma getRealInputPortId_rank:
  "getRealInputPortId p pid = Inr r \<Longrightarrow>
     r < length (inputPorts p) \<and> portId (inputPorts p ! r) = pid
       \<and> (\<forall>j < r. portId (inputPorts p ! j) \<noteq> pid)"
  using real_port_id_Some [of "inputPorts p" pid 0 r]
  by (auto simp: getRealInputPortId_def split: option.splits)

lemma getRealOutputPortId_rank:
  "getRealOutputPortId p pid = Inr r \<Longrightarrow>
     r < length (outputPorts p) \<and> portId (outputPorts p ! r) = pid
       \<and> (\<forall>j < r. portId (outputPorts p ! j) \<noteq> pid)"
  using real_port_id_Some [of "outputPorts p" pid 0 r]
  by (auto simp: getRealOutputPortId_def split: option.splits)

lemma gather_inputs_length:
  "gather_inputs no P N p es ins = Inr ins' \<Longrightarrow> length ins' = length ins"
  by (induction es arbitrary: ins) (auto split: option.splits sum.splits if_splits)

lemma gather_inputs_changed:
  "gather_inputs no P N p es ins = Inr ins' \<Longrightarrow> k < length ins \<Longrightarrow> ins' ! k \<noteq> ins ! k \<Longrightarrow>
     \<exists>e \<in> set es. getRealInputPortId p (toPortId e) = Inr k"
proof (induction es arbitrary: ins)
  case Nil
  then show ?case by simp
next
  case (Cons e es)
  from Cons.prems(1) obtain nd r s t where
    r: "getRealInputPortId p (toPortId e) = Inr r" "r < length ins"
    and rest: "gather_inputs no P N p es
        (ins[r := Some \<lparr>out_node = fromLayerId e, out_index = s, out_type = t\<rparr>]) = Inr ins'"
    by (auto split: option.splits sum.splits if_splits)
  show ?case
  proof (cases "r = k")
    case True
    with r show ?thesis by auto
  next
    case False
    with Cons.prems have "ins' ! k \<noteq> (ins[r := Some \<lparr>out_node = fromLayerId e, out_index = s, out_type = t\<rparr>]) ! k"
      by simp
    with Cons.IH [OF rest] Cons.prems(2) show ?thesis by auto
  qed
qed

lemma gather_inputs_bound:
  "gather_inputs no P N p es ins = Inr ins' \<Longrightarrow> e \<in> set es \<Longrightarrow>
     \<exists>r. getRealInputPortId p (toPortId e) = Inr r \<and> r < length ins"
proof (induction es arbitrary: ins)
  case Nil
  then show ?case by simp
next
  case (Cons e0 es)
  from Cons.prems(1) obtain r s t where
    r: "getRealInputPortId p (toPortId e0) = Inr r" "r < length ins"
    and rest: "gather_inputs no P N p es
        (ins[r := Some \<lparr>out_node = fromLayerId e0, out_index = s, out_type = t\<rparr>]) = Inr ins'"
    by (auto split: option.splits sum.splits if_splits)
  show ?case
  proof (cases "e = e0")
    case True
    with r show ?thesis by auto
  next
    case False
    with Cons.prems(2) have "e \<in> set es" by simp
    from Cons.IH [OF rest this] show ?thesis by simp
  qed
qed

lemma gather_inputs_slot:
  "gather_inputs no P N p es ins = Inr ins' \<Longrightarrow> e \<in> set es \<Longrightarrow>
   getRealInputPortId p (toPortId e) = Inr r \<Longrightarrow>
     \<exists>e' \<in> set es. getRealInputPortId p (toPortId e') = Inr r
        \<and> (\<exists>s t. getRealOutputPortId (params (params_at P (fromLayerId e'))) (fromPortId e') = Inr s
              \<and> ins' ! r = Some \<lparr>out_node = fromLayerId e', out_index = s, out_type = t\<rparr>)"
proof (induction es arbitrary: ins e)
  case Nil
  then show ?case by simp
next
  case (Cons e0 es)
  from Cons.prems(1) obtain r0 s t where
    r0: "getRealInputPortId p (toPortId e0) = Inr r0" "r0 < length ins"
    and s: "getRealOutputPortId (params (params_at P (fromLayerId e0))) (fromPortId e0) = Inr s"
    and rest: "gather_inputs no P N p es
        (ins[r0 := Some \<lparr>out_node = fromLayerId e0, out_index = s, out_type = t\<rparr>]) = Inr ins'"
    by (auto split: option.splits sum.splits if_splits)
  let ?ins1 = "ins[r0 := Some \<lparr>out_node = fromLayerId e0, out_index = s, out_type = t\<rparr>]"
  show ?case
  proof (cases "\<exists>e' \<in> set es. getRealInputPortId p (toPortId e') = Inr r")
    case True
    then obtain e' where "e' \<in> set es" "getRealInputPortId p (toPortId e') = Inr r" by blast
    from Cons.IH [OF rest this] show ?thesis by auto
  next
    case False
    with Cons.prems have e: "e = e0" by auto
    with r0 Cons.prems(3) have rr: "r0 = r" by simp
    have "ins' ! r = ?ins1 ! r"
    proof (rule ccontr)
      assume "ins' ! r \<noteq> ?ins1 ! r"
      with gather_inputs_changed [OF rest, of r] r0 rr False show False by auto
    qed
    with r0 rr s show ?thesis by auto
  qed
qed

lemma check_inputs_Some: "check_inputs ins i = Inr args \<Longrightarrow> ins = map Some args"
  by (induction ins arbitrary: i args) (auto split: option.splits sum.splits if_splits)

lemma createNode_input_values:
  "createNode m_opsets fw visit ins np = Inr nd \<Longrightarrow> check_inputs ins 0 = Inr (input_values nd)"
  by (auto simp: createNode_def instantiate_def framework_node_def Let_def
      split: sum.splits option.splits if_splits prod.splits)

lemma gather_all_filled_distinct:
  assumes g: "gather_inputs no P N p es (replicate (length es) None) = Inr (map Some args)"
  shows "distinct (map (\<lambda>e. getRealInputPortId p (toPortId e)) es)"
proof -
  let ?rk = "\<lambda>e. getRealInputPortId p (toPortId e)"
  let ?n = "length es"
  have len: "length args = ?n" using gather_inputs_length [OF g] by simp
  have "Inr ` {0..<?n} \<subseteq> set (map ?rk es)"
  proof
    fix x assume "x \<in> (Inr ` {0..<?n} :: (error + nat) set)"
    then obtain k where k: "k < ?n" "x = Inr k" by auto
    have "map Some args ! k \<noteq> replicate ?n None ! k" using k len by simp
    from gather_inputs_changed [OF g _ this] k obtain e where "e \<in> set es" "?rk e = Inr k"
      by auto
    with k show "x \<in> set (map ?rk es)" by force
  qed
  then have "card (Inr ` {0..<?n} :: (error + nat) set) \<le> card (set (map ?rk es))"
    by (intro card_mono) auto
  moreover have "card (Inr ` {0..<?n} :: (error + nat) set) = ?n"
    by (simp add: card_image)
  moreover have "card (set (map ?rk es)) \<le> length (map ?rk es)" by (rule card_length)
  ultimately have "card (set (map ?rk es)) = length (map ?rk es)" by simp
  then show ?thesis by (rule card_distinct)
qed

text \<open>
  C1. For every node the construction loop builds, an edge into the layer is bound to the
  input slot whose index is the rank of the edge's to-port id in the declared input ports of
  the layer (the first position that carries the id), and the slot holds the output of the
  source node whose index is the rank of the from-port id in the declared output ports of the
  source layer. With inputs declared as 7, 3, 9, the edge to port 3 binds slot 1, the second.
\<close>

theorem edge_binds_slot_of_port_rank:
  assumes b: "build_node (createNode m_opsets fw visit) node_output P E st layer_id = Inr st'"
    and es: "E layer_id = Some es"
    and e: "e \<in> set es"
  shows "\<exists>nd r s. id_to_node st' layer_id = Some nd
           \<and> r < length (inputPorts (params (params_at P layer_id)))
           \<and> portId (inputPorts (params (params_at P layer_id)) ! r) = toPortId e
           \<and> (\<forall>j < r. portId (inputPorts (params (params_at P layer_id)) ! j) \<noteq> toPortId e)
           \<and> s < length (outputPorts (params (params_at P (fromLayerId e))))
           \<and> portId (outputPorts (params (params_at P (fromLayerId e))) ! s) = fromPortId e
           \<and> (\<forall>j < s. portId (outputPorts (params (params_at P (fromLayerId e))) ! j) \<noteq> fromPortId e)
           \<and> r < length (input_values nd)
           \<and> out_node (input_values nd ! r) = fromLayerId e
           \<and> out_index (input_values nd ! r) = s"
proof -
  let ?p = "params (params_at P layer_id)"
  let ?rk = "\<lambda>e. getRealInputPortId ?p (toPortId e)"
  from b es obtain ins nd where
    g: "gather_inputs node_output P (id_to_node st) ?p es (replicate (length es) None) = Inr ins"
    and c: "createNode m_opsets fw visit ins (params_at P layer_id) = Inr nd"
    and st': "st' = index_node st layer_id nd"
    by (auto simp: build_node_def split: sum.splits)
  have nd: "id_to_node st' layer_id = Some nd"
    unfolding st' by (simp add: index_node_def Let_def)
  have ins: "ins = map Some (input_values nd)"
    using check_inputs_Some [OF createNode_input_values [OF c]] .
  have len: "length (input_values nd) = length es"
    using gather_inputs_length [OF g] ins by simp
  have dist: "distinct (map ?rk es)"
    using gather_all_filled_distinct g ins by blast
  then have inj: "inj_on ?rk (set es)" by (simp add: distinct_map)
  from gather_inputs_bound [OF g e] obtain r where
    r: "?rk e = Inr r" "r < length es" by auto
  from gather_inputs_slot [OF g e r(1)] obtain e' s t where
    e': "e' \<in> set es" "?rk e' = Inr r"
    and s: "getRealOutputPortId (params (params_at P (fromLayerId e'))) (fromPortId e') = Inr s"
    and slot: "ins ! r = Some \<lparr>out_node = fromLayerId e', out_index = s, out_type = t\<rparr>"
    by blast
  have "?rk e' = ?rk e" using e' r by simp
  from inj_onD [OF inj this e'(1) e] have same: "e' = e" .
  from slot ins r len have v: "input_values nd ! r = \<lparr>out_node = fromLayerId e, out_index = s, out_type = t\<rparr>"
    unfolding same by simp
  from getRealInputPortId_rank [OF r(1)] getRealOutputPortId_rank [OF s [unfolded same]]
    nd r len v
  show ?thesis by (intro exI [of _ nd] exI [of _ r] exI [of _ s]) simp
qed

theorem edge_binds_slot_of_port_rank_witness:
  "\<exists>st' nd.
     build_node
       (createNode [''opset1'' \<mapsto> (\<lambda>ty. Some OtherOp)] False
          (\<lambda>cls x args. Inr \<lparr>v_variable_id = [], v_output_types = [''f32'']\<rparr>))
       (\<lambda>n i. Inr ''f32'')
       (\<lambda>i. Some \<lparr>xml = None,
                   params = \<lparr>layerId = i, version = ''opset1'', name = ''n'', type = ''Concat'',
                     inputPorts = map (\<lambda>k. \<lparr>portId = k, dims = [], precision = undefined_type, names = {}\<rparr>) [7, 3, 9],
                     outputPorts = [\<lparr>portId = 4, dims = [], precision = ''f32'', names = {}\<rparr>]\<rparr>\<rparr>)
       [5 \<mapsto> [\<lparr>fromLayerId = 1, fromPortId = 4, toPortId = 7\<rparr>,
              \<lparr>fromLayerId = 2, fromPortId = 4, toPortId = 3\<rparr>,
              \<lparr>fromLayerId = 3, fromPortId = 4, toPortId = 9\<rparr>]]
       \<lparr>id_to_node = (\<lambda>i. Some \<lparr>friendly_name = ''n'', op_class = OtherOp,
                          created_from = Some (''opset1'', ''Concat''), variable_id = [],
                          input_values = [], output_types = [''f32''], control_dependencies = []\<rparr>),
        func_nodes = \<lparr>parameters = [], results = [], all_nodes = [], sinks = []\<rparr>,
        variable_id_to_read_value = Map.empty,
        io_map = \<lparr>io_inputs = Map.empty, io_outputs = Map.empty\<rparr>\<rparr>
       5 = Inr st'
     \<and> id_to_node st' 5 = Some nd
     \<and> out_node (input_values nd ! 1) = 2 \<and> out_index (input_values nd ! 1) = 0"
proof -
  let ?create = "createNode [''opset1'' \<mapsto> (\<lambda>ty. Some OtherOp)] False
          (\<lambda>cls x args. Inr \<lparr>v_variable_id = [], v_output_types = [''f32'']\<rparr>)"
  let ?no = "\<lambda>(n::node) (i::nat). (Inr ''f32'' :: error + element_type)"
  let ?P = "\<lambda>i. Some \<lparr>xml = None,
                   params = \<lparr>layerId = i, version = ''opset1'', name = ''n'', type = ''Concat'',
                     inputPorts = map (\<lambda>k. \<lparr>portId = k, dims = [], precision = undefined_type, names = {}\<rparr>) [7, 3, 9],
                     outputPorts = [\<lparr>portId = 4, dims = [], precision = ''f32'', names = {}\<rparr>]\<rparr>\<rparr>"
  let ?e = "\<lparr>fromLayerId = 2, fromPortId = 4, toPortId = 3\<rparr>"
  let ?es = "[\<lparr>fromLayerId = 1, fromPortId = 4, toPortId = 7\<rparr>, ?e,
              \<lparr>fromLayerId = 3, fromPortId = 4, toPortId = 9\<rparr>]"
  let ?st = "\<lparr>id_to_node = (\<lambda>i. Some \<lparr>friendly_name = ''n'', op_class = OtherOp,
                          created_from = Some (''opset1'', ''Concat''), variable_id = [],
                          input_values = [], output_types = [''f32''], control_dependencies = []\<rparr>),
        func_nodes = \<lparr>parameters = [], results = [], all_nodes = [], sinks = []\<rparr>,
        variable_id_to_read_value = Map.empty,
        io_map = \<lparr>io_inputs = Map.empty, io_outputs = Map.empty\<rparr>\<rparr>"
  have "\<exists>st'. build_node ?create ?no ?P [5 \<mapsto> ?es] ?st 5 = Inr st'"
    by (simp add: build_node_def params_at_def getRealInputPortId_def getRealOutputPortId_def
        createNode_def undefined_type_def experimental_ops_added_to_opset_def find_opset_def
        instantiate_def)
  then obtain st' where b: "build_node ?create ?no ?P [5 \<mapsto> ?es] ?st 5 = Inr st'" ..
  from edge_binds_slot_of_port_rank [OF b, of ?es ?e] obtain nd r s where
    nd: "id_to_node st' 5 = Some nd"
    and rl: "r < length (inputPorts (params (params_at ?P 5)))"
    and rp: "portId (inputPorts (params (params_at ?P 5)) ! r) = toPortId ?e"
    and s: "s < length (outputPorts (params (params_at ?P (fromLayerId ?e))))"
    and v: "out_node (input_values nd ! r) = fromLayerId ?e" "out_index (input_values nd ! r) = s"
    by auto
  from rl have "r = 0 \<or> r = 1 \<or> r = 2" by (auto simp: params_at_def)
  with rp have "r = 1" by (auto simp: params_at_def)
  from s have "s = 0" by (simp add: params_at_def)
  with b nd v \<open>r = 1\<close> show ?thesis by auto
qed

section \<open>The order of construction\<close>

text \<open>What a call of the search changes: the edge table keeps its content, \<open>used\<close> grows
  inside \<open>U\<close>, and \<open>order\<close> gains exactly the ids that became used, once each.\<close>

definition dfs_grows :: "nat set \<Rightarrow> dfs_state \<Rightarrow> dfs_state \<Rightarrow> bool" where
  "dfs_grows U st st' \<longleftrightarrow>
     edges_at (edges st') = edges_at (edges st) \<and> used st \<subseteq> used st' \<and> used st' \<subseteq> used st \<union> U
     \<and> (\<exists>new. order st' = order st @ new \<and> distinct new \<and> set new = used st' - used st)"

definition closed_under_edges :: "nat set \<Rightarrow> dfs_state \<Rightarrow> bool" where
  "closed_under_edges U st \<longleftrightarrow> (\<forall>i \<in> U. \<forall>e \<in> set (edges_at (edges st) i). fromLayerId e \<in> U)"

lemma dfs_grows_refl: "dfs_grows U st st"
  by (simp add: dfs_grows_def)

lemma dfs_grows_trans:
  assumes "dfs_grows U a b" "dfs_grows U b c"
  shows "dfs_grows U a c"
proof -
  from assms obtain n1 n2 where
    n1: "order b = order a @ n1" "distinct n1" "set n1 = used b - used a"
    and n2: "order c = order b @ n2" "distinct n2" "set n2 = used c - used b"
    by (auto simp: dfs_grows_def)
  from assms have sub: "used a \<subseteq> used b" "used b \<subseteq> used c" "used c \<subseteq> used a \<union> U"
    and ed: "edges_at (edges c) = edges_at (edges a)"
    by (auto simp: dfs_grows_def)
  have "order c = order a @ (n1 @ n2)" using n1 n2 by simp
  moreover have "distinct (n1 @ n2)" using n1 n2 by auto
  moreover have "set (n1 @ n2) = used c - used a" using n1 n2 sub by auto
  ultimately show ?thesis using sub ed unfolding dfs_grows_def by blast
qed

lemma closed_under_edges_grows:
  "dfs_grows U st st' \<Longrightarrow> closed_under_edges U st \<Longrightarrow> closed_under_edges U st'"
  by (simp add: dfs_grows_def closed_under_edges_def)

lemma card_unused_grows:
  assumes "finite U" "dfs_grows U st st'"
  shows "card (U - used st') \<le> card (U - used st)"
proof (rule card_mono)
  show "finite (U - used st)" using assms(1) by simp
  show "U - used st' \<subseteq> U - used st" using assms(2) by (auto simp: dfs_grows_def)
qed

lemma edges_at_entry: "edges_at (E(i \<mapsto> edges_at E i)) = edges_at E"
  by (rule ext) (simp add: edges_at_def)

lemma dfs_each_returns:
  assumes step: "\<And>st i. closed_under_edges U st \<Longrightarrow> card (U - used st) < n \<Longrightarrow> i \<in> U
                   \<Longrightarrow> \<exists>st'. dfs n st i = Some st' \<and> dfs_grows U st st'"
    and fin: "finite U"
  shows "closed_under_edges U st \<Longrightarrow> card (U - used st) < n \<Longrightarrow> set ids \<subseteq> U
           \<Longrightarrow> \<exists>st'. dfs_each n st ids = Some st' \<and> dfs_grows U st st'"
proof (induction ids arbitrary: st)
  case Nil
  show ?case by (simp add: dfs_grows_refl)
next
  case (Cons i rest)
  from step [OF Cons.prems(1,2)] Cons.prems(3) obtain st1 where
    s1: "dfs n st i = Some st1" "dfs_grows U st st1" by auto
  have "card (U - used st1) < n"
    using card_unused_grows [OF fin s1(2)] Cons.prems(2) by simp
  from Cons.IH [OF closed_under_edges_grows [OF s1(2) Cons.prems(1)] this] Cons.prems(3)
  obtain st2 where s2: "dfs_each n st1 rest = Some st2" "dfs_grows U st1 st2" by auto
  from s1 s2 show ?case by (auto intro: dfs_grows_trans)
qed

lemma dfs_returns:
  assumes fin: "finite U"
  shows "closed_under_edges U st \<Longrightarrow> card (U - used st) < n \<Longrightarrow> i \<in> U
           \<Longrightarrow> \<exists>st'. dfs n st i = Some st' \<and> dfs_grows U st st'"
proof (induction n arbitrary: st i)
  case 0
  then show ?case by simp
next
  case (Suc n)
  show ?case
  proof (cases "i \<in> used st")
    case True
    then show ?thesis by (simp add: dfs_grows_refl)
  next
    case False
    let ?st1 = "st\<lparr>used := insert i (used st), edges := (edges st)(i \<mapsto> edges_at (edges st) i)\<rparr>"
    have ed1: "edges_at (edges ?st1) = edges_at (edges st)" by (simp add: edges_at_entry)
    have cl1: "closed_under_edges U ?st1"
      using Suc.prems(1) by (simp add: closed_under_edges_def edges_at_entry)
    have "i \<in> U - used st" using False Suc.prems(3) by simp
    moreover have "U - used ?st1 = (U - used st) - {i}" by auto
    ultimately have "card (U - used ?st1) = card (U - used st) - 1"
      using fin by simp
    moreover have "0 < card (U - used st)"
      using \<open>i \<in> U - used st\<close> fin by (auto simp: card_gt_0_iff)
    ultimately have c1: "card (U - used ?st1) < n" using Suc.prems(2) by simp
    have sub: "set (map fromLayerId (edges_at (edges st) i)) \<subseteq> U"
      using Suc.prems(1,3) by (auto simp: closed_under_edges_def)
    from dfs_each_returns [where U = U and n = n, OF Suc.IH fin cl1 c1 sub]
    obtain st2 where s2:
      "dfs_each n ?st1 (map fromLayerId (edges_at (edges st) i)) = Some st2"
      "dfs_grows U ?st1 st2" by blast
    from s2(2) obtain new where new: "order st2 = order st @ new" "distinct new"
      "set new = used st2 - insert i (used st)"
      and u: "insert i (used st) \<subseteq> used st2" "used st2 \<subseteq> insert i (used st) \<union> U"
      and e2: "edges_at (edges st2) = edges_at (edges st)"
      by (auto simp: dfs_grows_def edges_at_entry)
    let ?st' = "st2\<lparr>order := order st2 @ [i]\<rparr>"
    have "order ?st' = order st @ (new @ [i])" using new by simp
    moreover have "distinct (new @ [i])" using new by auto
    moreover have "set (new @ [i]) = used ?st' - used st" using new u False by auto
    moreover have "used st \<subseteq> used ?st'" "used ?st' \<subseteq> used st \<union> U"
      using u Suc.prems(3) by auto
    moreover have "edges_at (edges ?st') = edges_at (edges st)" using e2 by simp
    ultimately have "dfs_grows U st ?st'" unfolding dfs_grows_def by blast
    moreover have "dfs (Suc n) st i = Some ?st'" using False s2(1) by simp
    ultimately show ?thesis by blast
  qed
qed

lemma edges_at_read_edges:
  "e \<in> set (edges_at (read_edges xs E) i) \<Longrightarrow>
     e \<in> set (edges_at E i) \<or> fromLayerId e \<in> xe_from_layer ` set xs"
proof (induction xs arbitrary: E)
  case Nil
  then show ?case by simp
next
  case (Cons x xs)
  from Cons.IH [OF Cons.prems [simplified]] show ?case
    by (auto simp: edges_at_def split: if_splits)
qed

lemma reachable_sources:
  "reachable (read_edges xs Map.empty) a b \<Longrightarrow> b = a \<or> b \<in> xe_from_layer ` set xs"
proof (induction rule: reachable.induct)
  case (reachable_refl a)
  show ?case by simp
next
  case (reachable_step a b e)
  from edges_at_read_edges [OF reachable_step.hyps(2)] show ?case
    by (auto simp: edges_at_def)
qed

lemma reachable_set_finite:
  fixes xs outs
  defines "U \<equiv> {i. \<exists>a \<in> set outs. reachable (read_edges xs Map.empty) a i}"
  shows "finite U \<and> card U \<le> length outs + length xs"
proof -
  have sub: "U \<subseteq> set outs \<union> xe_from_layer ` set xs"
    unfolding U_def using reachable_sources by blast
  have fin: "finite (set outs \<union> xe_from_layer ` set xs)" by simp
  have "card U \<le> card (set outs \<union> xe_from_layer ` set xs)"
    by (rule card_mono [OF fin sub])
  also have "\<dots> \<le> card (set outs) + card (xe_from_layer ` set xs)" by (rule card_Un_le)
  also have "\<dots> \<le> length outs + length xs"
    by (intro add_mono card_length order_trans [OF card_image_le card_length]) simp
  finally show ?thesis using finite_subset [OF sub fin] by simp
qed

lemma dfs_from_outputs:
  fixes xs outs
  defines "E \<equiv> read_edges xs Map.empty"
  shows "\<exists>d. dfs_each (Suc (length outs + length xs)) \<lparr>edges = E, used = {}, order = []\<rparr> outs = Some d
           \<and> distinct (order d)
           \<and> (\<forall>i \<in> set (order d). \<exists>a \<in> set outs. reachable E a i)
           \<and> edges_at (edges d) = edges_at E"
proof -
  let ?U = "{i. \<exists>a \<in> set outs. reachable E a i}"
  let ?st0 = "\<lparr>edges = E, used = {}, order = []\<rparr>"
  have fin: "finite ?U" and card: "card ?U \<le> length outs + length xs"
    using reachable_set_finite [of outs xs] unfolding E_def by auto
  have cl: "closed_under_edges ?U ?st0"
    by (auto simp: closed_under_edges_def intro: reachable_step)
  have c0: "card (?U - used ?st0) < Suc (length outs + length xs)" using card by simp
  have sub: "set outs \<subseteq> ?U" by (auto intro: reachable_refl)
  from dfs_each_returns [where U = ?U, OF dfs_returns [OF fin] fin cl c0 sub]
  obtain d where d: "dfs_each (Suc (length outs + length xs)) ?st0 outs = Some d"
    "dfs_grows ?U ?st0 d" by blast
  from d(2) have "distinct (order d)" "set (order d) \<subseteq> ?U" "edges_at (edges d) = edges_at E"
    by (auto simp: dfs_grows_def)
  with d(1) show ?thesis by blast
qed

section \<open>The construction loop and the pass over the sinks\<close>

lemma construct_nodes_returns: "construct_nodes cp cn no io root \<noteq> None"
proof (cases "read_layers cp (xn_layers root) Map.empty [] {}")
  case (Inl e)
  then show ?thesis by (simp add: construct_nodes_def)
next
  case (Inr r)
  obtain P outs where r: "r = (P, outs)" by (cases r)
  from dfs_from_outputs [of outs "xn_edges root"] obtain d where
    "dfs_each (Suc (length outs + length (xn_edges root)))
       \<lparr>edges = read_edges (xn_edges root) Map.empty, used = {}, order = []\<rparr> outs = Some d"
    by blast
  with Inr r show ?thesis by (simp add: construct_nodes_def)
qed

lemma parse_function_returns: "parse_function cp cn no io root \<noteq> None"
  using construct_nodes_returns [of cp cn no io root]
  by (auto simp: parse_function_def split: option.splits sum.splits)

definition build_inv :: "build_state \<Rightarrow> bool" where
  "build_inv st \<longleftrightarrow>
     (\<forall>v h. variable_id_to_read_value st v = Some h \<longrightarrow>
        (\<exists>n. id_to_node st h = Some n \<and> op_class n = ReadValueOp \<and> variable_id n = v))
     \<and> (\<forall>h n. id_to_node st h = Some n \<and> op_class n = ReadValueOp \<longrightarrow>
        variable_id_to_read_value st (variable_id n) \<noteq> None)
     \<and> (\<forall>h n. id_to_node st h = Some n \<and> op_class n = AssignOp \<longrightarrow>
        h \<in> set (sinks (func_nodes st)))
     \<and> set (sinks (func_nodes st)) \<subseteq> dom (id_to_node st)
     \<and> set (all_nodes (func_nodes st)) = dom (id_to_node st)"

lemma index_node_fields:
  "id_to_node (index_node st i nd) = (id_to_node st)(i \<mapsto> nd)"
  "variable_id_to_read_value (index_node st i nd) =
     (if op_class nd = ReadValueOp then (variable_id_to_read_value st)(variable_id nd \<mapsto> i)
      else variable_id_to_read_value st)"
  "sinks (func_nodes (index_node st i nd)) =
     (if op_class nd = AssignOp \<or> op_class nd = OtherSinkOp
      then sinks (func_nodes st) @ [i] else sinks (func_nodes st))"
  "all_nodes (func_nodes (index_node st i nd)) = all_nodes (func_nodes st) @ [i]"
  by (simp_all add: index_node_def Let_def)

lemma build_inv_index_node:
  assumes inv: "build_inv st" and fresh: "i \<notin> dom (id_to_node st)"
  shows "build_inv (index_node st i nd)"
proof -
  from inv have
    a: "\<And>v h. variable_id_to_read_value st v = Some h \<Longrightarrow>
          \<exists>n. id_to_node st h = Some n \<and> op_class n = ReadValueOp \<and> variable_id n = v"
    and b: "\<And>h n. id_to_node st h = Some n \<Longrightarrow> op_class n = ReadValueOp \<Longrightarrow>
          variable_id_to_read_value st (variable_id n) \<noteq> None"
    and c: "\<And>h n. id_to_node st h = Some n \<Longrightarrow> op_class n = AssignOp \<Longrightarrow>
          h \<in> set (sinks (func_nodes st))"
    and d: "set (sinks (func_nodes st)) \<subseteq> dom (id_to_node st)"
    and e: "set (all_nodes (func_nodes st)) = dom (id_to_node st)"
    unfolding build_inv_def by blast+
  have a': "\<exists>n. id_to_node (index_node st i nd) h = Some n \<and> op_class n = ReadValueOp \<and> variable_id n = v"
    if "variable_id_to_read_value (index_node st i nd) v = Some h" for v h
  proof (cases "op_class nd = ReadValueOp \<and> v = variable_id nd")
    case True
    with that show ?thesis by (simp add: index_node_fields)
  next
    case False
    with that have "variable_id_to_read_value st v = Some h"
      by (auto simp: index_node_fields split: if_splits)
    from a [OF this] obtain n where n: "id_to_node st h = Some n" "op_class n = ReadValueOp"
      "variable_id n = v" by blast
    with fresh have "h \<noteq> i" by auto
    with n show ?thesis by (simp add: index_node_fields)
  qed
  have b': "variable_id_to_read_value (index_node st i nd) (variable_id n) \<noteq> None"
    if "id_to_node (index_node st i nd) h = Some n" "op_class n = ReadValueOp" for h n
  proof (cases "h = i")
    case True
    with that show ?thesis by (simp add: index_node_fields)
  next
    case False
    with that have "id_to_node st h = Some n" by (simp add: index_node_fields)
    from b [OF this that(2)] show ?thesis by (simp add: index_node_fields)
  qed
  have c': "h \<in> set (sinks (func_nodes (index_node st i nd)))"
    if "id_to_node (index_node st i nd) h = Some n" "op_class n = AssignOp" for h n
  proof (cases "h = i")
    case True
    with that show ?thesis by (simp add: index_node_fields)
  next
    case False
    with that have "id_to_node st h = Some n" by (simp add: index_node_fields)
    from c [OF this that(2)] show ?thesis by (simp add: index_node_fields)
  qed
  have d': "set (sinks (func_nodes (index_node st i nd))) \<subseteq> dom (id_to_node (index_node st i nd))"
    using d by (auto simp: index_node_fields)
  have e': "set (all_nodes (func_nodes (index_node st i nd))) = dom (id_to_node (index_node st i nd))"
    using e by (auto simp: index_node_fields)
  from a' b' c' d' e' show ?thesis unfolding build_inv_def by blast
qed

lemma build_node_cases:
  "build_node cn no P E st i = Inr st' \<Longrightarrow>
     st' = st \<or> (\<exists>nd. st' = index_node st i nd)"
  by (auto simp: build_node_def split: option.splits sum.splits)

lemma build_nodes_inv:
  "build_nodes cn no P E st ids = Inr st' \<Longrightarrow> build_inv st \<Longrightarrow> distinct ids \<Longrightarrow>
   set ids \<inter> dom (id_to_node st) = {} \<Longrightarrow>
     build_inv st' \<and> dom (id_to_node st') \<subseteq> dom (id_to_node st) \<union> set ids"
proof (induction ids arbitrary: st)
  case Nil
  then show ?case by simp
next
  case (Cons i rest)
  from Cons.prems(1) obtain st1 where
    s1: "build_node cn no P E st i = Inr st1" and r: "build_nodes cn no P E st1 rest = Inr st'"
    by (auto split: sum.splits)
  from Cons.prems(4) have fresh: "i \<notin> dom (id_to_node st)" by auto
  from build_node_cases [OF s1] have
    inv1: "build_inv st1" and dom1: "dom (id_to_node st1) \<subseteq> insert i (dom (id_to_node st))"
    using Cons.prems(2) fresh build_inv_index_node [OF Cons.prems(2) fresh]
    by (auto simp: index_node_fields)
  have "set rest \<inter> dom (id_to_node st1) = {}"
    using dom1 Cons.prems(3,4) by auto
  from Cons.IH [OF r inv1 _ this] Cons.prems(3) have
    inv': "build_inv st'" and dom': "dom (id_to_node st') \<subseteq> dom (id_to_node st1) \<union> set rest"
    by auto
  from dom' dom1 have "dom (id_to_node st') \<subseteq> dom (id_to_node st) \<union> set (i # rest)"
    by (simp only: set_simps) blast
  with inv' show ?case by simp
qed

definition keeps_nodes :: "(nat \<rightharpoonup> node) \<Rightarrow> (nat \<rightharpoonup> node) \<Rightarrow> bool" where
  "keeps_nodes N N' \<longleftrightarrow>
     (\<forall>h. (N h = None \<longrightarrow> N' h = None)
        \<and> (\<forall>n. N h = Some n \<longrightarrow>
             (\<exists>n'. N' h = Some n' \<and> op_class n' = op_class n \<and> variable_id n' = variable_id n
                \<and> set (control_dependencies n) \<subseteq> set (control_dependencies n'))))"

lemma keeps_nodes_refl: "keeps_nodes N N"
  by (simp add: keeps_nodes_def)

lemma keeps_nodes_trans:
  assumes ab: "keeps_nodes A B" and bc: "keeps_nodes B C"
  shows "keeps_nodes A C"
  unfolding keeps_nodes_def
proof (intro allI conjI impI)
  fix h assume "A h = None"
  with ab have "B h = None" by (simp add: keeps_nodes_def)
  with bc show "C h = None" by (simp add: keeps_nodes_def)
next
  fix h n assume "A h = Some n"
  with ab obtain n1 where n1: "B h = Some n1" "op_class n1 = op_class n"
    "variable_id n1 = variable_id n"
    "set (control_dependencies n) \<subseteq> set (control_dependencies n1)"
    unfolding keeps_nodes_def by blast
  from bc n1(1) obtain n2 where n2: "C h = Some n2" "op_class n2 = op_class n1"
    "variable_id n2 = variable_id n1"
    "set (control_dependencies n1) \<subseteq> set (control_dependencies n2)"
    unfolding keeps_nodes_def by blast
  from n1 n2 show "\<exists>n'. C h = Some n' \<and> op_class n' = op_class n \<and> variable_id n' = variable_id n
      \<and> set (control_dependencies n) \<subseteq> set (control_dependencies n')"
    by auto
qed

lemma keeps_nodes_update:
  "N s = Some a \<Longrightarrow>
     keeps_nodes N (N(s \<mapsto> a\<lparr>control_dependencies := control_dependencies a @ [h]\<rparr>))"
  by (auto simp: keeps_nodes_def)

lemma add_control_dependencies_keeps:
  "add_control_dependencies rv ss N = Inr N' \<Longrightarrow> keeps_nodes N N'"
proof (induction ss arbitrary: N)
  case Nil
  then show ?case by (simp add: keeps_nodes_refl)
next
  case (Cons s rest)
  show ?case
  proof (cases "N s")
    case None
    with Cons show ?thesis by simp
  next
    case (Some a)
    show ?thesis
    proof (cases "op_class a = AssignOp")
      case False
      with Some Cons show ?thesis by simp
    next
      case True
      with Some Cons.prems obtain h where h: "rv (variable_id a) = Some h"
        and r: "add_control_dependencies rv rest
                 (N(s \<mapsto> a\<lparr>control_dependencies := control_dependencies a @ [h]\<rparr>)) = Inr N'"
        by (auto split: option.splits)
      from keeps_nodes_trans [OF keeps_nodes_update [of N s a h, OF Some] Cons.IH [OF r]]
      show ?thesis .
    qed
  qed
qed

lemma add_control_dependencies_adds:
  "add_control_dependencies rv ss N = Inr N' \<Longrightarrow> s \<in> set ss \<Longrightarrow> N s = Some a \<Longrightarrow>
   op_class a = AssignOp \<Longrightarrow>
     \<exists>h a'. rv (variable_id a) = Some h \<and> N' s = Some a' \<and> h \<in> set (control_dependencies a')"
proof (induction ss arbitrary: N a)
  case Nil
  then show ?case by simp
next
  case (Cons s0 rest)
  show ?case
  proof (cases "s0 = s")
    case True
    with Cons.prems obtain h where h: "rv (variable_id a) = Some h"
      and r: "add_control_dependencies rv rest
               (N(s \<mapsto> a\<lparr>control_dependencies := control_dependencies a @ [h]\<rparr>)) = Inr N'"
      by (auto split: option.splits)
    from add_control_dependencies_keeps [OF r] h show ?thesis
      by (fastforce simp: keeps_nodes_def)
  next
    case False
    with Cons.prems(2) have in_rest: "s \<in> set rest" by simp
    from Cons.prems(1) obtain N1 where
      r: "add_control_dependencies rv rest N1 = Inr N'" and k: "keeps_nodes N N1"
      by (auto simp: keeps_nodes_refl keeps_nodes_update split: option.splits if_splits)
    from k Cons.prems(3,4) obtain a1 where a1: "N1 s = Some a1" "op_class a1 = AssignOp"
      "variable_id a1 = variable_id a" by (fastforce simp: keeps_nodes_def)
    from Cons.IH [OF r in_rest a1(1,2)] a1(3) show ?thesis by simp
  qed
qed

lemma add_control_dependencies_fails:
  "s \<in> set ss \<Longrightarrow> N s = Some a \<Longrightarrow> op_class a = AssignOp \<Longrightarrow> rv (variable_id a) = None \<Longrightarrow>
     add_control_dependencies rv ss N = Inl StdOutOfRange"
proof (induction ss arbitrary: N a)
  case Nil
  then show ?case by simp
next
  case (Cons s0 rest)
  show ?case
  proof (cases "s0 = s")
    case True
    with Cons.prems show ?thesis by simp
  next
    case False
    with Cons.prems(1) have in_rest: "s \<in> set rest" by simp
    have step: "add_control_dependencies rv rest N1 = Inl StdOutOfRange"
      if "keeps_nodes N N1" for N1
    proof -
      from that Cons.prems(2,3,4) obtain a1 where a1: "N1 s = Some a1" "op_class a1 = AssignOp"
        "rv (variable_id a1) = None" by (fastforce simp: keeps_nodes_def)
      show ?thesis by (rule Cons.IH [of N1 a1, OF in_rest a1])
    qed
    show ?thesis
    proof (cases "N s0")
      case None
      with step [OF keeps_nodes_refl] show ?thesis by simp
    next
      case (Some b)
      have upd: "add_control_dependencies rv rest
          (N(s0 \<mapsto> b\<lparr>control_dependencies := control_dependencies b @ [h]\<rparr>)) = Inl StdOutOfRange" for h
        using step keeps_nodes_update [of N s0 b h] Some by blast
      with Some step [OF keeps_nodes_refl] show ?thesis by (auto split: option.splits)
    qed
  qed
qed

lemma build_inv_initial:
  "build_inv \<lparr>id_to_node = Map.empty,
      func_nodes = \<lparr>parameters = [], results = [], all_nodes = [], sinks = []\<rparr>,
      variable_id_to_read_value = Map.empty, io_map = io\<rparr>"
  by (simp add: build_inv_def)

lemma parseGenericParams_fields:
  "parseGenericParams cp nd = Inr np \<Longrightarrow>
     layerId np = xl_id nd \<and> type np = xl_type nd \<and> name np = xl_name nd"
  by (auto simp: parseGenericParams_def split: sum.splits)

lemma read_layers_outs:
  "read_layers cp ls P outs nm = Inr (P', outs') \<Longrightarrow> a \<in> set outs' \<Longrightarrow>
     a \<in> set outs \<or> (\<exists>l \<in> set ls. (xl_type l = ''Result'' \<or> xl_type l = ''Assign'') \<and> xl_id l = a)"
proof (induction ls arbitrary: P outs nm)
  case Nil
  then show ?case by simp
next
  case (Cons nd rest)
  from Cons.prems(1) obtain np where np: "parseGenericParams cp nd = Inr np"
    and r: "read_layers cp rest (P(layerId np \<mapsto> \<lparr>xml = Some nd, params = np\<rparr>))
              (if type np = ''Result'' \<or> type np = ''Assign'' then outs @ [layerId np] else outs)
              (insert (name np) nm) = Inr (P', outs')"
    by (auto split: sum.splits if_splits)
  from Cons.IH [OF r Cons.prems(2)] parseGenericParams_fields [OF np] show ?case
    by (auto split: if_splits)
qed

lemma construct_nodes_inv:
  assumes c: "construct_nodes cp cn no io root = Some (Inr st)"
  shows "build_inv st \<and>
         (\<forall>h \<in> dom (id_to_node st). \<exists>l \<in> set (xn_layers root).
            (xl_type l = ''Result'' \<or> xl_type l = ''Assign'')
            \<and> reachable (read_edges (xn_edges root) Map.empty) (xl_id l) h)"
proof -
  let ?E = "read_edges (xn_edges root) Map.empty"
  let ?st0 = "\<lparr>id_to_node = Map.empty,
      func_nodes = \<lparr>parameters = [], results = [], all_nodes = [], sinks = []\<rparr>,
      variable_id_to_read_value = Map.empty, io_map = io\<rparr>"
  from c obtain P outs where rl: "read_layers cp (xn_layers root) Map.empty [] {} = Inr (P, outs)"
    by (auto simp: construct_nodes_def split: sum.splits)
  from dfs_from_outputs [of outs "xn_edges root"] obtain d where
    d: "dfs_each (Suc (length outs + length (xn_edges root)))
          \<lparr>edges = ?E, used = {}, order = []\<rparr> outs = Some d"
    and dist: "distinct (order d)"
    and reach: "\<forall>i \<in> set (order d). \<exists>a \<in> set outs. reachable ?E a i"
    by blast
  from c rl d have b: "build_nodes cn no P (edges d) ?st0 (order d) = Inr st"
    by (simp add: construct_nodes_def)
  from build_nodes_inv [OF b build_inv_initial dist] have
    inv: "build_inv st" and dom: "dom (id_to_node st) \<subseteq> set (order d)" by auto
  have "\<exists>l \<in> set (xn_layers root). (xl_type l = ''Result'' \<or> xl_type l = ''Assign'')
            \<and> reachable ?E (xl_id l) h" if "h \<in> dom (id_to_node st)" for h
  proof -
    from that dom reach obtain a where a: "a \<in> set outs" "reachable ?E a h" by blast
    from read_layers_outs [OF rl a(1)] a(2) show ?thesis by auto
  qed
  with inv show ?thesis by blast
qed

text \<open>
  C2. In a Function that \<^verbatim>\<open>parse_function\<close> returns, every node of class Assign is among
  the sinks and has, among its control dependencies, a node of class ReadValue with the same
  variable id. When the construction loop has built an Assign and no ReadValue with its
  variable id, the pass over the sinks throws (\<^verbatim>\<open>std::out_of_range\<close> of
  \<^verbatim>\<open>map::at\<close>) and no Function is returned.
\<close>

theorem assign_depends_on_read_value:
  "(parse_function cp cn no io root = Some (Inr (f, io')) \<and> fn_nodes f s = Some a
      \<and> op_class a = AssignOp
    \<longrightarrow> s \<in> set (fn_sinks f)
        \<and> (\<exists>h r. fn_nodes f h = Some r \<and> op_class r = ReadValueOp
              \<and> variable_id r = variable_id a \<and> h \<in> set (control_dependencies a)))
   \<and> (construct_nodes cp cn no io root = Some (Inr st) \<and> id_to_node st s = Some a
        \<and> op_class a = AssignOp
        \<and> (\<forall>h r. id_to_node st h = Some r \<and> op_class r = ReadValueOp
               \<longrightarrow> variable_id r \<noteq> variable_id a)
      \<longrightarrow> parse_function cp cn no io root = Some (Inl StdOutOfRange))"
proof (rule conjI; rule impI)
  assume asm: "parse_function cp cn no io root = Some (Inr (f, io')) \<and> fn_nodes f s = Some a
      \<and> op_class a = AssignOp"
  then obtain st0 where c: "construct_nodes cp cn no io root = Some (Inr st0)"
    and ad: "add_control_dependencies (variable_id_to_read_value st0) (sinks (func_nodes st0))
               (id_to_node st0) = Inr (fn_nodes f)"
    and sk: "fn_sinks f = sinks (func_nodes st0)"
    by (auto simp: parse_function_def split: option.splits sum.splits)
  from construct_nodes_inv [OF c] have inv: "build_inv st0" by simp
  from add_control_dependencies_keeps [OF ad] have k: "keeps_nodes (id_to_node st0) (fn_nodes f)" .
  from asm k obtain a0 where a0: "id_to_node st0 s = Some a0" "op_class a0 = AssignOp"
    "variable_id a0 = variable_id a"
    unfolding keeps_nodes_def by (cases "id_to_node st0 s") fastforce+
  from inv a0 have in_sinks: "s \<in> set (sinks (func_nodes st0))"
    unfolding build_inv_def by blast
  from add_control_dependencies_adds [OF ad in_sinks a0(1,2)] asm a0(3) obtain h where
    h: "variable_id_to_read_value st0 (variable_id a) = Some h" "h \<in> set (control_dependencies a)"
    by auto
  from inv h(1) obtain r0 where r0: "id_to_node st0 h = Some r0" "op_class r0 = ReadValueOp"
    "variable_id r0 = variable_id a"
    unfolding build_inv_def by blast
  from k r0 obtain r where "fn_nodes f h = Some r" "op_class r = ReadValueOp"
    "variable_id r = variable_id a"
    unfolding keeps_nodes_def by fastforce
  with h(2) in_sinks sk
  show "s \<in> set (fn_sinks f)
        \<and> (\<exists>h r. fn_nodes f h = Some r \<and> op_class r = ReadValueOp
              \<and> variable_id r = variable_id a \<and> h \<in> set (control_dependencies a))"
    by auto
next
  assume asm: "construct_nodes cp cn no io root = Some (Inr st) \<and> id_to_node st s = Some a
        \<and> op_class a = AssignOp
        \<and> (\<forall>h r. id_to_node st h = Some r \<and> op_class r = ReadValueOp
               \<longrightarrow> variable_id r \<noteq> variable_id a)"
  then have c: "construct_nodes cp cn no io root = Some (Inr st)" by simp
  from construct_nodes_inv [OF c] have inv: "build_inv st" by simp
  from inv asm have in_sinks: "s \<in> set (sinks (func_nodes st))"
    unfolding build_inv_def by blast
  have none: "variable_id_to_read_value st (variable_id a) = None"
  proof (cases "variable_id_to_read_value st (variable_id a)")
    case None
    then show ?thesis .
  next
    case (Some h)
    with inv obtain r where "id_to_node st h = Some r" "op_class r = ReadValueOp"
      "variable_id r = variable_id a" unfolding build_inv_def by blast
    with asm show ?thesis by blast
  qed
  from asm have sa: "id_to_node st s = Some a" "op_class a = AssignOp" by simp_all
  have "add_control_dependencies (variable_id_to_read_value st) (sinks (func_nodes st))
          (id_to_node st) = Inl StdOutOfRange"
    by (rule add_control_dependencies_fails
          [of s "sinks (func_nodes st)" "id_to_node st" a "variable_id_to_read_value st",
           OF in_sinks sa none])
  with c show "parse_function cp cn no io root = Some (Inl StdOutOfRange)"
    by (simp add: parse_function_def)
qed



lemmas eval_simps =
  construct_nodes_def parse_function_def parseGenericParams_def parsePort_def
  parse_port_names_def getParameters_string_def getParameters_def
  edges_at_def params_at_def build_node_def getRealInputPortId_def getRealOutputPortId_def
  index_node_def map_insert_def Let_def undefined_type_def
  extract_int64_def is_space_def is_digit_def digits_val_def digit_val_def

theorem assign_depends_on_read_value_witness:
  "(\<exists>f io' a. parse_function (\<lambda>s. Some s)
        (\<lambda>ins np. Inr \<lparr>friendly_name = name (params np),
            op_class = (if type (params np) = ''Assign'' then AssignOp else ReadValueOp),
            created_from = None, variable_id = ''v'', input_values = [], output_types = [],
            control_dependencies = []\<rparr>)
        (\<lambda>n i. Inr ''f32'') \<lparr>io_inputs = Map.empty, io_outputs = Map.empty\<rparr>
        \<lparr>xn_name = ''net'',
         xn_layers =
           [\<lparr>xl_id = 3, xl_version = ''opset3'', xl_type = ''ReadValue'', xl_name = ''rv'',
             xl_output = [\<lparr>xp_id = 0, xp_dims = [''1''], xp_precision = ''f32'', xp_names = None\<rparr>],
             xl_input = [], xl_data = None\<rparr>,
            \<lparr>xl_id = 9, xl_version = ''opset3'', xl_type = ''Assign'', xl_name = ''as'',
             xl_output = [],
             xl_input = [\<lparr>xp_id = 0, xp_dims = [''1''], xp_precision = [], xp_names = None\<rparr>],
             xl_data = None\<rparr>],
         xn_edges = [\<lparr>xe_from_layer = 3, xe_from_port = 0, xe_to_layer = 9, xe_to_port = 0\<rparr>]\<rparr>
        = Some (Inr (f, io'))
      \<and> fn_nodes f 9 = Some a \<and> 9 \<in> set (fn_sinks f)
      \<and> (\<exists>h r. fn_nodes f h = Some r \<and> op_class r = ReadValueOp
             \<and> variable_id r = variable_id a \<and> h \<in> set (control_dependencies a)))
   \<and> parse_function (\<lambda>s. Some s)
        (\<lambda>ins np. Inr \<lparr>friendly_name = name (params np),
            op_class = (if type (params np) = ''Assign'' then AssignOp else ReadValueOp),
            created_from = None,
            variable_id = (if type (params np) = ''Assign'' then ''v'' else ''w''),
            input_values = [], output_types = [], control_dependencies = []\<rparr>)
        (\<lambda>n i. Inr ''f32'') \<lparr>io_inputs = Map.empty, io_outputs = Map.empty\<rparr>
        \<lparr>xn_name = ''net'',
         xn_layers =
           [\<lparr>xl_id = 3, xl_version = ''opset3'', xl_type = ''ReadValue'', xl_name = ''rv'',
             xl_output = [\<lparr>xp_id = 0, xp_dims = [''1''], xp_precision = ''f32'', xp_names = None\<rparr>],
             xl_input = [], xl_data = None\<rparr>,
            \<lparr>xl_id = 9, xl_version = ''opset3'', xl_type = ''Assign'', xl_name = ''as'',
             xl_output = [],
             xl_input = [\<lparr>xp_id = 0, xp_dims = [''1''], xp_precision = [], xp_names = None\<rparr>],
             xl_data = None\<rparr>],
         xn_edges = [\<lparr>xe_from_layer = 3, xe_from_port = 0, xe_to_layer = 9, xe_to_port = 0\<rparr>]\<rparr>
        = Some (Inl StdOutOfRange)"
proof (rule conjI)
  let ?cp = "\<lambda>s::string. Some s"
  let ?no = "\<lambda>(n::node) (i::nat). (Inr ''f32'' :: error + element_type)"
  let ?io = "\<lparr>io_inputs = Map.empty, io_outputs = Map.empty\<rparr>"
  let ?root = "\<lparr>xn_name = ''net'',
         xn_layers =
           [\<lparr>xl_id = 3, xl_version = ''opset3'', xl_type = ''ReadValue'', xl_name = ''rv'',
             xl_output = [\<lparr>xp_id = 0, xp_dims = [''1''], xp_precision = ''f32'', xp_names = None\<rparr>],
             xl_input = [], xl_data = None\<rparr>,
            \<lparr>xl_id = 9, xl_version = ''opset3'', xl_type = ''Assign'', xl_name = ''as'',
             xl_output = [],
             xl_input = [\<lparr>xp_id = 0, xp_dims = [''1''], xp_precision = [], xp_names = None\<rparr>],
             xl_data = None\<rparr>],
         xn_edges = [\<lparr>xe_from_layer = 3, xe_from_port = 0, xe_to_layer = 9, xe_to_port = 0\<rparr>]\<rparr>"
  let ?cn = "\<lambda>(ins :: output_handle option list) np. (Inr \<lparr>friendly_name = name (params np),
            op_class = (if type (params np) = ''Assign'' then AssignOp else ReadValueOp),
            created_from = None, variable_id = ''v'', input_values = [], output_types = [],
            control_dependencies = []\<rparr> :: error + node)"
  let ?cn' = "\<lambda>(ins :: output_handle option list) np. (Inr \<lparr>friendly_name = name (params np),
            op_class = (if type (params np) = ''Assign'' then AssignOp else ReadValueOp),
            created_from = None,
            variable_id = (if type (params np) = ''Assign'' then ''v'' else ''w''),
            input_values = [], output_types = [], control_dependencies = []\<rparr> :: error + node)"
  have "\<exists>f io' a. parse_function ?cp ?cn ?no ?io ?root = Some (Inr (f, io'))
          \<and> fn_nodes f 9 = Some a \<and> op_class a = AssignOp"
    by (simp add: eval_simps)
  then obtain f io' a where p: "parse_function ?cp ?cn ?no ?io ?root = Some (Inr (f, io'))"
    and a: "fn_nodes f 9 = Some a" "op_class a = AssignOp" by blast
  from assign_depends_on_read_value [of ?cp ?cn ?no ?io ?root f io' 9 a] p a
  have "9 \<in> set (fn_sinks f)
        \<and> (\<exists>h r. fn_nodes f h = Some r \<and> op_class r = ReadValueOp
              \<and> variable_id r = variable_id a \<and> h \<in> set (control_dependencies a))"
    by blast
  with p a show "\<exists>f io' a. parse_function ?cp ?cn ?no ?io ?root = Some (Inr (f, io'))
      \<and> fn_nodes f 9 = Some a \<and> 9 \<in> set (fn_sinks f)
      \<and> (\<exists>h r. fn_nodes f h = Some r \<and> op_class r = ReadValueOp
             \<and> variable_id r = variable_id a \<and> h \<in> set (control_dependencies a))"
    by blast
  have "\<exists>st a. construct_nodes ?cp ?cn' ?no ?io ?root = Some (Inr st)
          \<and> id_to_node st 9 = Some a \<and> op_class a = AssignOp
          \<and> (\<forall>h r. id_to_node st h = Some r \<and> op_class r = ReadValueOp
                 \<longrightarrow> variable_id r \<noteq> variable_id a)"
    by (simp add: eval_simps)
  then obtain st a' where "construct_nodes ?cp ?cn' ?no ?io ?root = Some (Inr st)
          \<and> id_to_node st 9 = Some a' \<and> op_class a' = AssignOp
          \<and> (\<forall>h r. id_to_node st h = Some r \<and> op_class r = ReadValueOp
                 \<longrightarrow> variable_id r \<noteq> variable_id a')" by blast
  with assign_depends_on_read_value [of ?cp ?cn' ?no ?io ?root _ _ 9 a' st]
  show "parse_function ?cp ?cn' ?no ?io ?root = Some (Inl StdOutOfRange)" by blast
qed

section \<open>Layers that no output reaches\<close>











section \<open>Opset resolution\<close>

lemma add_opsets_keeps:
  "add_opsets its m = Inr m' \<Longrightarrow> m k = Some v \<Longrightarrow> m' k = Some v"
proof (induction its arbitrary: m)
  case Nil
  then show ?case by simp
next
  case (Cons it rest)
  from Cons.prems(1) have none: "m (fst it) = None"
    and r: "add_opsets rest (m(fst it \<mapsto> snd it)) = Inr m'"
    by (auto split: option.splits)
  from none Cons.prems(2) have "k \<noteq> fst it" by auto
  with Cons.prems(2) have "(m(fst it \<mapsto> snd it)) k = Some v" by simp
  from Cons.IH [OF r this] show ?case .
qed

lemma load_custom_opsets_keeps:
  "load_custom_opsets exts m = Inr m' \<Longrightarrow> m k = Some v \<Longrightarrow> m' k = Some v"
proof (induction exts arbitrary: m)
  case Nil
  then show ?case by simp
next
  case (Cons ext rest)
  from Cons.prems(1) obtain m1 where a: "add_opsets (getOpSets ext) m = Inr m1"
    and r: "load_custom_opsets rest m1 = Inr m'"
    by (auto split: sum.splits)
  from Cons.IH [OF r add_opsets_keeps [OF a Cons.prems(2)]] show ?case .
qed

lemma load_opsets_defaults:
  assumes "load_opsets get_opset m_exts = Inr m_opsets"
  shows "m_opsets ''opset1'' = Some (get_opset 1)" "m_opsets ''opset2'' = Some (get_opset 2)"
    "m_opsets ''opset6'' = Some (get_opset 6)"
proof -
  note k = load_custom_opsets_keeps [OF assms [unfolded load_opsets_def]]
  show "m_opsets ''opset1'' = Some (get_opset 1)"
    by (rule k) (simp add: default_opsets_def)
  show "m_opsets ''opset2'' = Some (get_opset 2)"
    by (rule k) (simp add: default_opsets_def)
  show "m_opsets ''opset6'' = Some (get_opset 6)"
    by (rule k) (simp add: default_opsets_def)
qed

text \<open>
  C4. With the registry that \<^verbatim>\<open>convert\<close> builds (the eight default opsets and the
  opsets of the extensions) and inputs that pass the check: a layer whose type is one of the
  eight experimental operators and whose version is \<^verbatim>\<open>experimental\<close> or
  \<^verbatim>\<open>extension\<close> is made by the factory of opset6, whether or not its version is
  registered; a layer of version opset1 and type MVN, ROIPooling or ReorgYolo is made by the
  factory of opset2; a layer of type Const whose version is registered is made under the type
  name Constant. The unsupported-opset error is what remains when no remapping applies, the
  version is not registered and the fallback is off.
\<close>

theorem opset_remappings:
  assumes reg: "load_opsets get_opset m_exts = Inr m_opsets"
    and chk: "check_inputs inputs 0 = Inr args"
  shows "(type (params np) \<in> set experimental_ops_added_to_opset
            \<and> (version (params np) = ''experimental'' \<or> version (params np) = ''extension'')
          \<longrightarrow> createNode m_opsets fw visit inputs np
              = instantiate visit ''opset6'' (get_opset 6) (type (params np)) np args)
       \<and> (version (params np) = ''opset1''
            \<and> (type (params np) = ''MVN'' \<or> type (params np) = ''ROIPooling''
                 \<or> type (params np) = ''ReorgYolo'')
          \<longrightarrow> createNode m_opsets fw visit inputs np
              = instantiate visit ''opset2'' (get_opset 2) (type (params np)) np args)
       \<and> (type (params np) = ''Const'' \<and> m_opsets (version (params np)) = Some os
          \<longrightarrow> createNode m_opsets fw visit inputs np
              = instantiate visit (version (params np)) os ''Constant'' np args)
       \<and> (\<not> (type (params np) \<in> set experimental_ops_added_to_opset
               \<and> (version (params np) = ''experimental'' \<or> version (params np) = ''extension''))
            \<and> m_opsets (version (params np)) = None \<and> \<not> fw
          \<longrightarrow> createNode m_opsets fw visit inputs np
              = Inl (UnsupportedOpset (version (params np))))"
proof -
  note d = load_opsets_defaults [OF reg]
  have c1: "type (params np) \<in> set experimental_ops_added_to_opset
            \<and> (version (params np) = ''experimental'' \<or> version (params np) = ''extension'')
          \<longrightarrow> createNode m_opsets fw visit inputs np
              = instantiate visit ''opset6'' (get_opset 6) (type (params np)) np args"
  proof
    assume a: "type (params np) \<in> set experimental_ops_added_to_opset
            \<and> (version (params np) = ''experimental'' \<or> version (params np) = ''extension'')"
    then have ne: "type (params np) \<noteq> ''Const''" "version (params np) \<noteq> ''opset1''"
      by (auto simp: experimental_ops_added_to_opset_def)
    from a ne chk d(3) show "createNode m_opsets fw visit inputs np
              = instantiate visit ''opset6'' (get_opset 6) (type (params np)) np args"
      by (simp add: createNode_def find_opset_def)
  qed
  have c2: "version (params np) = ''opset1''
            \<and> (type (params np) = ''MVN'' \<or> type (params np) = ''ROIPooling''
                 \<or> type (params np) = ''ReorgYolo'')
          \<longrightarrow> createNode m_opsets fw visit inputs np
              = instantiate visit ''opset2'' (get_opset 2) (type (params np)) np args"
  proof
    assume a: "version (params np) = ''opset1''
            \<and> (type (params np) = ''MVN'' \<or> type (params np) = ''ROIPooling''
                 \<or> type (params np) = ''ReorgYolo'')"
    then have ne: "type (params np) \<noteq> ''Const''"
      "type (params np) \<notin> set experimental_ops_added_to_opset"
      by (auto simp: experimental_ops_added_to_opset_def)
    from a ne chk d(1,2) show "createNode m_opsets fw visit inputs np
              = instantiate visit ''opset2'' (get_opset 2) (type (params np)) np args"
      by (auto simp: createNode_def find_opset_def)
  qed
  have c3: "type (params np) = ''Const'' \<and> m_opsets (version (params np)) = Some os
          \<longrightarrow> createNode m_opsets fw visit inputs np
              = instantiate visit (version (params np)) os ''Constant'' np args"
  proof
    assume a: "type (params np) = ''Const'' \<and> m_opsets (version (params np)) = Some os"
    then have ne: "type (params np) \<notin> set experimental_ops_added_to_opset"
      by (simp add: experimental_ops_added_to_opset_def)
    from a ne chk show "createNode m_opsets fw visit inputs np
              = instantiate visit (version (params np)) os ''Constant'' np args"
      by (simp add: createNode_def find_opset_def)
  qed
  have c4: "\<not> (type (params np) \<in> set experimental_ops_added_to_opset
               \<and> (version (params np) = ''experimental'' \<or> version (params np) = ''extension''))
            \<and> m_opsets (version (params np)) = None \<and> \<not> fw
          \<longrightarrow> createNode m_opsets fw visit inputs np
              = Inl (UnsupportedOpset (version (params np)))"
    using chk by (auto simp: createNode_def find_opset_def)
  show ?thesis by (intro conjI) (rule c1, rule c2, rule c3, rule c4)
qed

theorem opset_remappings_witness:
  "createNode (default_opsets example_get_opset) False example_visit []
       (example_params ''GRUCell'' ''experimental'')
     = Inr \<lparr>friendly_name = ''n'', op_class = OtherOp,
            created_from = Some (''opset6'', ''GRUCell''), variable_id = [],
            input_values = [], output_types = [''f32''], control_dependencies = []\<rparr>
   \<and> createNode (default_opsets example_get_opset) False example_visit []
       (example_params ''MVN'' ''opset1'')
     = Inr \<lparr>friendly_name = ''n'', op_class = OtherOp,
            created_from = Some (''opset2'', ''MVN''), variable_id = [],
            input_values = [], output_types = [''f32''], control_dependencies = []\<rparr>
   \<and> createNode (default_opsets example_get_opset) False example_visit []
       (example_params ''Const'' ''opset3'')
     = Inr \<lparr>friendly_name = ''n'', op_class = ConstantOp,
            created_from = Some (''opset3'', ''Constant''), variable_id = [],
            input_values = [], output_types = [''f32''], control_dependencies = []\<rparr>"
proof -
  have reg: "load_opsets example_get_opset [] = Inr (default_opsets example_get_opset)"
    by (simp add: load_opsets_def)
  have chk: "check_inputs [] 0 = Inr []" by simp
  note t = opset_remappings [OF reg chk, of _ False example_visit]
  have a: "createNode (default_opsets example_get_opset) False example_visit []
       (example_params ''GRUCell'' ''experimental'')
     = instantiate example_visit ''opset6'' (example_get_opset 6) ''GRUCell''
         (example_params ''GRUCell'' ''experimental'') []"
    using t [of "example_params ''GRUCell'' ''experimental''", THEN conjunct1]
    by (simp add: example_params_def experimental_ops_added_to_opset_def)
  have b: "createNode (default_opsets example_get_opset) False example_visit []
       (example_params ''MVN'' ''opset1'')
     = instantiate example_visit ''opset2'' (example_get_opset 2) ''MVN''
         (example_params ''MVN'' ''opset1'') []"
    using t [of "example_params ''MVN'' ''opset1''", THEN conjunct2, THEN conjunct1]
    by (simp add: example_params_def)
  have c: "createNode (default_opsets example_get_opset) False example_visit []
       (example_params ''Const'' ''opset3'')
     = instantiate example_visit ''opset3'' (example_get_opset 3) ''Constant''
         (example_params ''Const'' ''opset3'') []"
    using t [of "example_params ''Const'' ''opset3''" "example_get_opset 3",
        THEN conjunct2, THEN conjunct2, THEN conjunct1]
    by (simp add: example_params_def default_opsets_def)
  show ?thesis
    unfolding a b c
    by (simp add: instantiate_def example_get_opset_def example_visit_def example_params_def)
qed

section \<open>The port map of a sub-graph operator\<close>

subsection \<open>The map of the entries\<close>

lemma map_emplace_keys: "fst ` set (map_emplace m k v) = insert k (fst ` set m)"
  by (induction m) auto

lemma map_emplace_sorted:
  "sorted_wrt (<) (map fst m) \<Longrightarrow> sorted_wrt (<) (map fst (map_emplace m k v))"
proof (induction m)
  case Nil
  show ?case by simp
next
  case (Cons kv rest)
  have "\<forall>x \<in> fst ` set (map_emplace rest k v). fst kv < x" if "fst kv < k"
    using that Cons.prems by (auto simp: map_emplace_keys)
  with Cons show ?case by (auto simp: image_iff)
qed

lemma map_of_map_emplace:
  "sorted_wrt (<) (map fst m) \<Longrightarrow>
     map_of (map_emplace m k v) = (case map_of m k of Some w \<Rightarrow> map_of m | None \<Rightarrow> (map_of m)(k \<mapsto> v))"
proof (induction m)
  case Nil
  show ?case by simp
next
  case (Cons kv rest)
  obtain k0 v0 where kv: "kv = (k0, v0)" by (cases kv)
  from Cons.prems kv have srt: "sorted_wrt (<) (map fst rest)" and lt: "\<forall>x \<in> set rest. k0 < fst x"
    by auto
  show ?case
  proof (cases "k < k0")
    case True
    with lt have "k \<notin> fst ` set rest" by force
    then have "map_of rest k = None" by (simp add: map_of_eq_None_iff)
    with True kv show ?thesis by auto
  next
    case False
    show ?thesis
    proof (cases "k = k0")
      case True
      with kv show ?thesis by simp
    next
      case ne: False
      with False kv Cons.IH [OF srt] show ?thesis
        by (auto split: option.splits simp: fun_upd_twist)
    qed
  qed
qed

lemma emplace_all:
  "sorted_wrt (<) (map fst m) \<Longrightarrow>
     sorted_wrt (<) (map fst (foldl (\<lambda>m x. map_emplace m (key x) x) m xs))
     \<and> (\<forall>k. map_of (foldl (\<lambda>m x. map_emplace m (key x) x) m xs) k
            = (case map_of m k of Some w \<Rightarrow> Some w | None \<Rightarrow> find (\<lambda>x. key x = k) xs))"
proof (induction xs arbitrary: m)
  case Nil
  then show ?case by (auto split: option.splits)
next
  case (Cons x xs)
  from Cons.IH [OF map_emplace_sorted [OF Cons.prems, of "key x" x]]
    map_of_map_emplace [OF Cons.prems, of "key x" x]
  show ?case by (auto split: option.splits)
qed


lemma output_map_entries:
  "sorted_wrt (<) (map fst (output_map xs))
   \<and> (\<forall>k. map_of (output_map xs) k = find (\<lambda>x. sint (po_external_port_id x) = k) xs)"
  using emplace_all [of "[]" "\<lambda>x. sint (po_external_port_id x)" xs]
  by (simp add: output_map_def)


subsection \<open>Input descriptions\<close>




lemma unat_minus_one_64: "unat (- 1 :: 64 word) = 18446744073709551615"
  by (simp add: unsigned_minus_1_eq_mask mask_eq_exp_minus_1)

lemmas sub_graph_example_defs =
  example_body_io_def example_body_layers_def example_input_def example_output_def
  example_sub_graph_def example_shared_port_def

lemmas port_map_eval_simps =
  parseInputDescription_def parseOutputDescription_def updated_io_map_def input_map_def
  output_map_def input_description_def map_insert_def unconnected_def unat_minus_one_64




subsection \<open>Output descriptions\<close>

lemma output_number_of_connected_output:
  "output_number_of (connected_output x j n) = n"
  by (simp add: connected_output_def split: option.splits)

lemma list_nth_Suc_all:
  "(length ds = Suc m \<and> (\<forall>n < length ds. Q n (ds ! n)))
     \<longleftrightarrow> (\<exists>d ds'. ds = d # ds' \<and> Q 0 d \<and> length ds' = m \<and> (\<forall>n < length ds'. Q (Suc n) (ds' ! n)))"
proof
  assume l: "length ds = Suc m \<and> (\<forall>n < length ds. Q n (ds ! n))"
  then obtain d ds' where ds: "ds = d # ds'" by (cases ds) auto
  from l ds have "Q 0 d" by auto
  moreover from l ds have "length ds' = m" by simp
  moreover have "\<forall>n < length ds'. Q (Suc n) (ds' ! n)"
  proof (intro allI impI)
    fix n assume "n < length ds'"
    then have "Suc n < length ds" using ds by simp
    with l have "Q (Suc n) (ds ! Suc n)" by blast
    then show "Q (Suc n) (ds' ! n)" using ds by simp
  qed
  ultimately show "\<exists>d ds'. ds = d # ds' \<and> Q 0 d \<and> length ds' = m \<and> (\<forall>n < length ds'. Q (Suc n) (ds' ! n))"
    using ds by blast
next
  assume "\<exists>d ds'. ds = d # ds' \<and> Q 0 d \<and> length ds' = m \<and> (\<forall>n < length ds'. Q (Suc n) (ds' ! n))"
  then obtain d ds' where ds: "ds = d # ds'" and q0: "Q 0 d" and m: "length ds' = m"
    and q: "\<forall>n < length ds'. Q (Suc n) (ds' ! n)" by blast
  have "\<forall>n < length ds. Q n (ds ! n)"
  proof (intro allI impI)
    fix n assume n: "n < length ds"
    show "Q n (ds ! n)"
    proof (cases n)
      case 0
      then show ?thesis using ds q0 by simp
    next
      case (Suc k)
      with n ds have "k < length ds'" by simp
      with q have "Q (Suc k) (ds' ! k)" by blast
      then show ?thesis using Suc ds by simp
    qed
  qed
  then show "length ds = Suc m \<and> (\<forall>n < length ds. Q n (ds ! n))" using ds m by simp
qed

lemma output_descriptions_Inr:
  "output_descriptions up xs n0 = Inr ds \<longleftrightarrow>
     length ds = length (filter (\<lambda>x. 0 \<le> sint (po_external_port_id x)) xs)
     \<and> (\<forall>n < length ds.
           \<exists>j. io_outputs up
                  (po_internal_layer_id (filter (\<lambda>x. 0 \<le> sint (po_external_port_id x)) xs ! n))
                = Some j
              \<and> ds ! n
                = connected_output (filter (\<lambda>x. 0 \<le> sint (po_external_port_id x)) xs ! n) j (n0 + n))"
proof (induction xs arbitrary: n0 ds)
  case Nil
  show ?case by auto
next
  case (Cons x xs)
  show ?case
  proof (cases "0 \<le> sint (po_external_port_id x)")
    case False
    then show ?thesis using Cons.IH [of n0 ds] by simp
  next
    case True
    have l: "output_descriptions up (x # xs) n0 = Inr ds \<longleftrightarrow>
       (\<exists>d ds'. ds = d # ds'
          \<and> (\<exists>j. io_outputs up (po_internal_layer_id x) = Some j \<and> d = connected_output x j n0)
          \<and> output_descriptions up xs (Suc n0) = Inr ds')"
      using True by (auto split: option.splits sum.splits)
    have r: "(length ds = Suc (length (filter (\<lambda>x. 0 \<le> sint (po_external_port_id x)) xs))
        \<and> (\<forall>n < length ds.
             \<exists>j. io_outputs up (po_internal_layer_id
                      ((x # filter (\<lambda>x. 0 \<le> sint (po_external_port_id x)) xs) ! n)) = Some j
                \<and> ds ! n = connected_output
                      ((x # filter (\<lambda>x. 0 \<le> sint (po_external_port_id x)) xs) ! n) j (n0 + n)))
       \<longleftrightarrow> (\<exists>d ds'. ds = d # ds'
          \<and> (\<exists>j. io_outputs up (po_internal_layer_id x) = Some j \<and> d = connected_output x j n0)
          \<and> length ds' = length (filter (\<lambda>x. 0 \<le> sint (po_external_port_id x)) xs)
          \<and> (\<forall>n < length ds'.
               \<exists>j. io_outputs up (po_internal_layer_id
                      (filter (\<lambda>x. 0 \<le> sint (po_external_port_id x)) xs ! n)) = Some j
                  \<and> ds' ! n = connected_output
                      (filter (\<lambda>x. 0 \<le> sint (po_external_port_id x)) xs ! n) j (Suc n0 + n)))"
      using list_nth_Suc_all [of ds "length (filter (\<lambda>x. 0 \<le> sint (po_external_port_id x)) xs)"
         "\<lambda>n d. \<exists>j. io_outputs up (po_internal_layer_id
                      ((x # filter (\<lambda>x. 0 \<le> sint (po_external_port_id x)) xs) ! n)) = Some j
                \<and> d = connected_output
                      ((x # filter (\<lambda>x. 0 \<le> sint (po_external_port_id x)) xs) ! n) j (n0 + n)"]
      by simp
    have f: "filter (\<lambda>x. 0 \<le> sint (po_external_port_id x)) (x # xs)
       = x # filter (\<lambda>x. 0 \<le> sint (po_external_port_id x)) xs"
      using True by simp
    show ?thesis
      unfolding l f length_Cons r
      using Cons.IH [of "Suc n0"] by blast
  qed
qed

lemma updated_io_map_cases:
  "(\<exists>up. updated_io_map io nd = Inr up) \<or> (\<exists>e. updated_io_map io nd = Inl e)"
  by (cases "updated_io_map io nd") auto

text \<open>
  C6. \<^verbatim>\<open>parseOutputDescription\<close> goes through the \<^verbatim>\<open><port_map>\<close> outputs in ascending
  order of their signed \<^verbatim>\<open>external_port_id\<close> (the entries of \<open>output_map\<close>). It returns
  exactly one description for each entry whose id is not negative, in that order, and the
  output number of the \<open>n\<close>-th description returned is \<open>n\<close>: the number of connected outputs
  described before it. An entry with a negative id gives no description and leaves the
  numbering unchanged.
\<close>

theorem connected_outputs_numbered_in_order:
  "(parseOutputDescription io nd = Inr ds \<longleftrightarrow>
      (\<exists>up. updated_io_map io nd = Inr up
         \<and> length ds = length (filter (\<lambda>x. 0 \<le> sint (po_external_port_id x)) (map snd (output_map (port_map_outputs nd))))
         \<and> (\<forall>n < length ds.
               \<exists>j. io_outputs up (po_internal_layer_id ((filter (\<lambda>x. 0 \<le> sint (po_external_port_id x)) (map snd (output_map (port_map_outputs nd)))) ! n)) = Some j
                 \<and> ds ! n = connected_output ((filter (\<lambda>x. 0 \<le> sint (po_external_port_id x)) (map snd (output_map (port_map_outputs nd)))) ! n) j n)))
   \<and> (\<forall>x j n. output_number_of (connected_output x j n) = n)
   \<and> (parseOutputDescription io nd = Inr ds \<longrightarrow> (\<forall>n < length ds. output_number_of (ds ! n) = n))
   \<and> sorted_wrt (<) (map fst (output_map (port_map_outputs nd)))
   \<and> (\<forall>k. map_of (output_map (port_map_outputs nd)) k
          = find (\<lambda>x. sint (po_external_port_id x) = k) (port_map_outputs nd))"
proof -
  have a: "parseOutputDescription io nd = Inr ds \<longleftrightarrow>
      (\<exists>up. updated_io_map io nd = Inr up
         \<and> length ds = length (filter (\<lambda>x. 0 \<le> sint (po_external_port_id x)) (map snd (output_map (port_map_outputs nd))))
         \<and> (\<forall>n < length ds.
               \<exists>j. io_outputs up (po_internal_layer_id ((filter (\<lambda>x. 0 \<le> sint (po_external_port_id x)) (map snd (output_map (port_map_outputs nd)))) ! n)) = Some j
                 \<and> ds ! n = connected_output ((filter (\<lambda>x. 0 \<le> sint (po_external_port_id x)) (map snd (output_map (port_map_outputs nd)))) ! n) j n))"
  proof (cases "updated_io_map io nd")
    case (Inl e)
    then show ?thesis by (simp add: parseOutputDescription_def)
  next
    case (Inr up)
    have "parseOutputDescription io nd
        = output_descriptions up (map snd (output_map (port_map_outputs nd))) 0"
      using Inr by (simp add: parseOutputDescription_def)
    then show ?thesis
      unfolding Inr
      using output_descriptions_Inr [of up "map snd (output_map (port_map_outputs nd))" 0 ds]
      by (simp del: filter_map)
  qed
  have e: "\<forall>x j n. output_number_of (connected_output x j n) = n"
    by (simp add: output_number_of_connected_output)
  have b: "parseOutputDescription io nd = Inr ds \<longrightarrow> (\<forall>n < length ds. output_number_of (ds ! n) = n)"
  proof (intro impI allI)
    fix n
    assume p: "parseOutputDescription io nd = Inr ds" and n: "n < length ds"
    from p obtain up where
      "output_descriptions up (map snd (output_map (port_map_outputs nd))) 0 = Inr ds"
      by (auto simp add: parseOutputDescription_def split: sum.splits)
    from this [unfolded output_descriptions_Inr] n
    obtain j where "ds ! n = connected_output ((filter (\<lambda>x. 0 \<le> sint (po_external_port_id x)) (map snd (output_map (port_map_outputs nd)))) ! n) j (0 + n)"
      by blast
    then show "output_number_of (ds ! n) = n"
      by (simp add: output_number_of_connected_output del: filter_map)
  qed
  have c: "sorted_wrt (<) (map fst (output_map (port_map_outputs nd)))"
    using output_map_entries by blast
  have d: "\<forall>k. map_of (output_map (port_map_outputs nd)) k
          = find (\<lambda>x. sint (po_external_port_id x) = k) (port_map_outputs nd)"
    using output_map_entries by blast
  show ?thesis by (intro conjI) (rule a, rule e, rule b, rule c, rule d)
qed

theorem connected_outputs_numbered_in_order_witness:
  "parseOutputDescription example_body_io example_sub_graph
     = Inr [BodyOutputDescription 0 0 (- 1), ConcatOutputDescription 1 1 0 1 1 (- 1) 0]
   \<and> map snd (output_map (port_map_outputs example_sub_graph))
     = [example_output (- 1) 9 None, example_output 0 7 None, example_output 1 8 (Some 0)]
   \<and> output_number_of
        ([BodyOutputDescription 0 0 (- 1), ConcatOutputDescription 1 1 0 1 1 (- 1) 0] ! 1) = 1"
proof -
  have p: "parseOutputDescription example_body_io example_sub_graph
     = Inr [BodyOutputDescription 0 0 (- 1), ConcatOutputDescription 1 1 0 1 1 (- 1) 0]"
    by (simp add: sub_graph_example_defs port_map_eval_simps connected_output_def)
  have m: "map snd (output_map (port_map_outputs example_sub_graph))
     = [example_output (- 1) 9 None, example_output 0 7 None, example_output 1 8 (Some 0)]"
    by (simp add: sub_graph_example_defs port_map_eval_simps)
  note n = connected_outputs_numbered_in_order [of example_body_io example_sub_graph
      "[BodyOutputDescription 0 0 (- 1), ConcatOutputDescription 1 1 0 1 1 (- 1) 0]",
      THEN conjunct2, THEN conjunct2, THEN conjunct1, THEN mp, OF p, THEN spec, of 1]
  have "output_number_of
        ([BodyOutputDescription 0 0 (- 1), ConcatOutputDescription 1 1 0 1 1 (- 1) 0] ! 1) = 1"
    using n by simp
  with p m show ?thesis by (intro conjI)
qed

section \<open>The device probe\<close>







end
